theory Spec2Isabelle
  imports Complex_Main "HOL-Library.Word" "HOL-Library.Log_Nat" "HOL-Library.AList"
begin

unbundle bit_operations_syntax

section \<open>Python values\<close>

text \<open>
  The program is Python. \<open>bytes\<close> and the \<open>latin1\<close>-decoded text of a header are both
  sequences of code points below 256, so both are \<open>string\<close> here and
  \<open>line.decode("latin1")\<close> is the identity. Python integers are unbounded: \<open>int\<close>.
\<close>

type_synonym bytes = string

datatype pyerror =
  ValueError | TypeError | KeyError | ZeroDivisionError | OverflowError
  | IndexError | AttributeError | IOError

text \<open>
  A Python \<open>float\<close> is a binary64 number. A finite one is kept as the rational it
  denotes (the sign of a zero is not kept: nothing below divides by a zero or prints one).
\<close>

datatype pyfloat = Fin rat | PInf | NInf | NaN

text \<open>The values a header entry can hold after \<open>auto_type\<close>, and \<open>None\<close>.\<close>

datatype pyval = VNone | VInt int | VFloat pyfloat | VBool bool | VStr string

section \<open>Text and byte operations\<close>

definition startswith :: "string \<Rightarrow> string \<Rightarrow> bool" where
  "startswith s p = (take (length p) s = p)"

text \<open>\<open>s.find(sub)\<close>: the lowest index where \<open>sub\<close> occurs, \<open>-1\<close> when it does not.\<close>

fun find_sub :: "string \<Rightarrow> string \<Rightarrow> nat option" where
  "find_sub [] sub = (if sub = [] then Some 0 else None)"
| "find_sub (c # cs) sub =
     (if startswith (c # cs) sub then Some 0 else map_option Suc (find_sub cs sub))"

definition py_find :: "string \<Rightarrow> string \<Rightarrow> int" where
  "py_find s sub = (case find_sub s sub of None \<Rightarrow> - 1 | Some i \<Rightarrow> int i)"

text \<open>The slices \<open>s[:k]\<close> and \<open>s[k:]\<close>; a negative bound counts from the end.\<close>

definition slice_to :: "int \<Rightarrow> 'a list \<Rightarrow> 'a list" where
  "slice_to k s = (if k < 0 then take (nat (int (length s) + k)) s else take (nat k) s)"

definition slice_from :: "int \<Rightarrow> 'a list \<Rightarrow> 'a list" where
  "slice_from k s = (if k < 0 then drop (nat (int (length s) + k)) s else drop (nat k) s)"

text \<open>
  \<open>str.isspace\<close> on the code points below 256 (the separators of \<open>str.split()\<close> and what
  \<open>str.strip()\<close> removes).
\<close>

definition isspace :: "char \<Rightarrow> bool" where
  "isspace c = (let n = of_char c :: nat in
     (9 \<le> n \<and> n \<le> 13) \<or> (28 \<le> n \<and> n \<le> 32) \<or> n = 133 \<or> n = 160)"

text \<open>
  The white space that \<open>int(str)\<close> and \<open>float(str)\<close> skip at both ends: the ASCII white
  space of C, and the two non-ASCII spaces below 256 (which CPython rewrites to a blank
  before parsing). The separators \<open>0x1C\<close>..\<open>0x1F\<close> are not skipped.
\<close>

definition isspace_num :: "char \<Rightarrow> bool" where
  "isspace_num c = (let n = of_char c :: nat in
     (9 \<le> n \<and> n \<le> 13) \<or> n = 32 \<or> n = 133 \<or> n = 160)"

definition strip_with :: "(char \<Rightarrow> bool) \<Rightarrow> string \<Rightarrow> string" where
  "strip_with P s = rev (dropWhile P (rev (dropWhile P s)))"

definition strip :: "string \<Rightarrow> string" where
  "strip s = strip_with isspace s"

text \<open>\<open>str.split()\<close>: the maximal runs of non-space characters.\<close>

fun split_ws_aux :: "string \<Rightarrow> string \<Rightarrow> string list" where
  "split_ws_aux cur [] = (if cur = [] then [] else [cur])"
| "split_ws_aux cur (c # cs) =
     (if isspace c then (if cur = [] then split_ws_aux [] cs else cur # split_ws_aux [] cs)
      else split_ws_aux (cur @ [c]) cs)"

definition split_ws :: "string \<Rightarrow> string list" where
  "split_ws s = split_ws_aux [] s"

text \<open>\<open>" ".join(words)\<close>.\<close>

fun join_sp :: "string list \<Rightarrow> string" where
  "join_sp [] = []"
| "join_sp [w] = w"
| "join_sp (w # ws) = w @ '' '' @ join_sp ws"

text \<open>\<open>text.split(" ", maxsplit=1)\<close>: one piece, or the two pieces around the first blank.\<close>

definition split_first_space :: "string \<Rightarrow> string list" where
  "split_first_space s =
     (case find_sub s '' '' of None \<Rightarrow> [s]
      | Some i \<Rightarrow> [take i s, drop (Suc i) s])"

text \<open>\<open>content.split(b"\r\n")\<close>: the pieces between the occurrences of the separator.\<close>

fun split_crlf_aux :: "string \<Rightarrow> string \<Rightarrow> string list" where
  "split_crlf_aux cur [] = [cur]"
| "split_crlf_aux cur [c] = [cur @ [c]]"
| "split_crlf_aux cur (c # d # cs) =
     (if c = CHR 0x0D \<and> d = CHR 0x0A then cur # split_crlf_aux [] cs
      else split_crlf_aux (cur @ [c]) (d # cs))"

definition split_crlf :: "string \<Rightarrow> string list" where
  "split_crlf s = split_crlf_aux [] s"

text \<open>\<open>str.lower\<close> on the code points below 256.\<close>

definition lower_char :: "char \<Rightarrow> char" where
  "lower_char c = (let n = of_char c :: nat in
     if (65 \<le> n \<and> n \<le> 90) \<or> (192 \<le> n \<and> n \<le> 222 \<and> n \<noteq> 215)
     then char_of (n + 32) else c)"

definition lower :: "string \<Rightarrow> string" where
  "lower s = map lower_char s"

section \<open>Numbers from text\<close>

definition is_ascii_digit :: "char \<Rightarrow> bool" where
  "is_ascii_digit c = (let n = of_char c :: nat in 48 \<le> n \<and> n \<le> 57)"

text \<open>
  \<open>str.isdigit\<close> is true of a non-empty string of digit characters; below 256 these
  are \<open>0\<close>..\<open>9\<close> and the superscripts two, three and one (\<open>0xB2\<close>, \<open>0xB3\<close>, \<open>0xB9\<close>).
\<close>

definition is_digit_char :: "char \<Rightarrow> bool" where
  "is_digit_char c = (is_ascii_digit c \<or> c = CHR 0xB2 \<or> c = CHR 0xB3 \<or> c = CHR 0xB9)"

definition isdigit :: "string \<Rightarrow> bool" where
  "isdigit s = (s \<noteq> [] \<and> list_all is_digit_char s)"

definition digit_val :: "char \<Rightarrow> int" where
  "digit_val c = int (of_char c) - 48"

definition digits_val :: "string \<Rightarrow> int" where
  "digits_val ds = foldl (\<lambda>acc c. 10 * acc + digit_val c) 0 ds"

text \<open>
  In a numeric literal an underscore is accepted only between two digits; the literal is
  then read without its underscores.
\<close>

fun underscores_ok :: "char option \<Rightarrow> string \<Rightarrow> bool" where
  "underscores_ok prev [] = True"
| "underscores_ok prev (c # cs) =
     (if c = CHR ''_'' then
        (case (prev, cs) of
           (Some p, d # _) \<Rightarrow> is_ascii_digit p \<and> is_ascii_digit d \<and> underscores_ok (Some c) cs
         | _ \<Rightarrow> False)
      else underscores_ok (Some c) cs)"

definition drop_underscores :: "string \<Rightarrow> string" where
  "drop_underscores s = filter (\<lambda>c. c \<noteq> CHR ''_'') s"

text \<open>An optional sign in front: \<open>(negative, rest)\<close>.\<close>

definition split_sign :: "string \<Rightarrow> bool \<times> string" where
  "split_sign s = (case s of
       c # cs \<Rightarrow> (if c = CHR ''-'' then (True, cs) else if c = CHR ''+'' then (False, cs)
                 else (False, s))
     | [] \<Rightarrow> (False, s))"

text \<open>
  \<open>int(s)\<close> for a string, base 10: white space at both ends, an optional sign, decimal
  digits with single underscores between them. Anything else raises \<open>ValueError\<close>.
  (CPython's configurable limit on the number of digits is taken to be switched off.)
\<close>

definition int_of_str :: "string \<Rightarrow> pyerror + int" where
  "int_of_str s =
     (let t = strip_with isspace_num s in
      if \<not> underscores_ok None t then Inl ValueError
      else
        let (neg, ds) = split_sign (drop_underscores t) in
        if ds \<noteq> [] \<and> list_all is_ascii_digit ds
        then Inr (if neg then - digits_val ds else digits_val ds)
        else Inl ValueError)"

section \<open>Binary64 arithmetic\<close>

text \<open>
  Every floating-point operation of the program returns its exact result rounded to the
  nearest binary64 number, ties to even: 53 significant bits, the least exponent
  \<open>-1074\<close>, infinity from \<open>2 ^ 1024\<close> on.
\<close>

definition pow_int :: "rat \<Rightarrow> int \<Rightarrow> rat" where
  "pow_int b e = (if 0 \<le> e then b ^ nat e else 1 / b ^ nat (- e))"

text \<open>\<open>\<lfloor>log\<^sub>2 a\<rfloor>\<close> for a positive rational \<open>a\<close>, from the bit lengths of its numerator and denominator.\<close>

definition floor_log2 :: "rat \<Rightarrow> int" where
  "floor_log2 a =
     (let (n, d) = quotient_of a; k = bitlen n - bitlen d
      in if pow_int 2 k \<le> a then k else k - 1)"

definition round_half_even :: "rat \<Rightarrow> int" where
  "round_half_even x =
     (let f = \<lfloor>x\<rfloor>; r = x - of_int f
      in if r < 1 / 2 then f else if 1 / 2 < r then f + 1
         else if even f then f else f + 1)"

text \<open>The least magnitude that rounds to infinity, \<open>2 ^ 1024\<close>, written out.\<close>

definition overflow_threshold :: rat where
  "overflow_threshold =
     179769313486231590772930519078902473361797697894230657273430081157732675805500963132708477322407536021120113879871393357658789768814416622492847430639474124377767893424865485276302219601246094119453082952085005768838150682342462881473913110540827237163350510684586298239947245938479716304835356329624224137216"

definition round64 :: "rat \<Rightarrow> pyfloat" where
  "round64 q =
     (if q = 0 then Fin 0
      else
        let a = \<bar>q\<bar>;
            e = max (floor_log2 a - 52) (- 1074);
            v = of_int (round_half_even (a / pow_int 2 e)) * pow_int 2 e
        in if overflow_threshold \<le> v then (if 0 < q then PInf else NInf)
           else Fin (if 0 < q then v else - v))"

text \<open>\<open>float(i)\<close> of a Python integer, also where an integer meets a float in arithmetic.\<close>

definition float_of_int :: "int \<Rightarrow> pyerror + pyfloat" where
  "float_of_int i = (case round64 (of_int i) of Fin q \<Rightarrow> Inr (Fin q) | _ \<Rightarrow> Inl OverflowError)"

definition fneg :: "pyfloat \<Rightarrow> pyfloat" where
  "fneg x = (case x of Fin q \<Rightarrow> Fin (- q) | PInf \<Rightarrow> NInf | NInf \<Rightarrow> PInf | NaN \<Rightarrow> NaN)"

definition fsign_neg :: "pyfloat \<Rightarrow> bool" where
  "fsign_neg x = (case x of Fin q \<Rightarrow> q < 0 | NInf \<Rightarrow> True | _ \<Rightarrow> False)"

text \<open>\<open>x * y\<close> on floats.\<close>

definition fmul :: "pyfloat \<Rightarrow> pyfloat \<Rightarrow> pyfloat" where
  "fmul x y =
     (case (x, y) of
        (Fin a, Fin b) \<Rightarrow> round64 (a * b)
      | (NaN, _) \<Rightarrow> NaN
      | (_, NaN) \<Rightarrow> NaN
      | _ \<Rightarrow> if x = Fin 0 \<or> y = Fin 0 then NaN
             else if fsign_neg x = fsign_neg y then PInf else NInf)"

text \<open>\<open>x / y\<close> on floats: Python raises \<open>ZeroDivisionError\<close> on a zero divisor.\<close>

definition fdiv :: "pyfloat \<Rightarrow> pyfloat \<Rightarrow> pyerror + pyfloat" where
  "fdiv x y =
     (if y = Fin 0 then Inl ZeroDivisionError
      else Inr (case (x, y) of
        (Fin a, Fin b) \<Rightarrow> round64 (a / b)
      | (NaN, _) \<Rightarrow> NaN
      | (_, NaN) \<Rightarrow> NaN
      | (Fin a, _) \<Rightarrow> Fin 0
      | (_, Fin b) \<Rightarrow> (if fsign_neg x = fsign_neg y then PInf else NInf)
      | _ \<Rightarrow> NaN))"

text \<open>\<open>np.ceil\<close> of a float, and \<open>int(x)\<close> of a float (truncation towards zero).\<close>

definition fceil :: "pyfloat \<Rightarrow> pyfloat" where
  "fceil x = (case x of Fin q \<Rightarrow> Fin (of_int \<lceil>q\<rceil>) | _ \<Rightarrow> x)"

definition int_of_float :: "pyfloat \<Rightarrow> pyerror + int" where
  "int_of_float x =
     (case x of
        Fin q \<Rightarrow> Inr (if 0 \<le> q then \<lfloor>q\<rfloor> else \<lceil>q\<rceil>)
      | NaN \<Rightarrow> Inl ValueError
      | _ \<Rightarrow> Inl OverflowError)"

text \<open>
  \<open>float(s)\<close> for a string: white space at both ends, an optional sign, then
  \<open>inf\<close>, \<open>infinity\<close> or \<open>nan\<close> in any case, or decimal digits with an optional point and
  an optional exponent, at least one digit in the mantissa. The decimal value is rounded
  to binary64.
\<close>

definition exponent_of :: "string \<Rightarrow> pyerror + int" where
  "exponent_of r =
     (case r of
        [] \<Rightarrow> Inr 0
      | c # cs \<Rightarrow>
          if c = CHR ''e'' \<or> c = CHR ''E'' then
            (let (neg, ds) = split_sign cs in
             if ds \<noteq> [] \<and> list_all is_ascii_digit ds
             then Inr (if neg then - digits_val ds else digits_val ds)
             else Inl ValueError)
          else Inl ValueError)"

definition decimal_of :: "string \<Rightarrow> pyerror + rat" where
  "decimal_of r =
     (let ip = takeWhile is_ascii_digit r;
          r1 = dropWhile is_ascii_digit r;
          has_point = (r1 \<noteq> [] \<and> hd r1 = CHR ''.'');
          fp = (if has_point then takeWhile is_ascii_digit (tl r1) else []);
          r2 = (if has_point then dropWhile is_ascii_digit (tl r1) else r1)
      in if ip = [] \<and> fp = [] then Inl ValueError
         else case exponent_of r2 of
                Inl e \<Rightarrow> Inl e
              | Inr ex \<Rightarrow>
                  Inr (of_int (digits_val (ip @ fp)) * pow_int 10 (ex - int (length fp))))"

definition float_of_str :: "string \<Rightarrow> pyerror + pyfloat" where
  "float_of_str s =
     (let t = strip_with isspace_num s in
      if \<not> underscores_ok None t then Inl ValueError
      else
        let (neg, r) = split_sign (drop_underscores t) in
        if lower r = ''inf'' \<or> lower r = ''infinity'' then Inr (if neg then NInf else PInf)
        else if lower r = ''nan'' then Inr NaN
        else case decimal_of r of
               Inl e \<Rightarrow> Inl e
             | Inr q \<Rightarrow> Inr (if neg then fneg (round64 q) else round64 q))"

section \<open>The type coercion of header values\<close>

text \<open>
  \<open>PolarImage.auto_type\<close>. \<open>int(string)\<close> runs whenever \<open>string.isdigit()\<close> holds, outside
  any \<open>try\<close>; only the \<open>float\<close> attempt is guarded, and only against \<open>ValueError\<close>.
\<close>

definition auto_type :: "string \<Rightarrow> pyerror + pyval" where
  "auto_type string =
     (if isdigit string then
        (case int_of_str string of Inl e \<Rightarrow> Inl e | Inr i \<Rightarrow> Inr (VInt i))
      else
        case float_of_str string of
          Inr float_val \<Rightarrow> Inr (VFloat float_val)
        | Inl e \<Rightarrow>
            if e \<noteq> ValueError then Inl e
            else if lower string \<in> set [''true'', ''false'']
            then Inr (VBool (lower string = ''true''))
            else Inr (VStr string))"

section \<open>The decode session\<close>

text \<open>
  One entry of the header dictionary, \<open>{"value": ..., "description": ...}\<close>. The
  dictionary keeps insertion order, and assigning to a key that is present replaces its
  entry in place: an association list with \<open>AList.update\<close>.
\<close>

record header_entry =
  val :: pyval
  description :: string

type_synonym header_dict = "(string \<times> header_entry) list"

text \<open>
  A \<open>numpy\<close> array as far as the program uses one: the one-dimensional array (the empty
  \<open>np.array([])\<close> is the only one that occurs), or a two-dimensional array with its two
  dimensions and its rows. Elements are kept as the integers they denote.
\<close>

datatype dtype = UInt8 | UInt16 | Int64 | Float64

datatype ndarray = Arr1 dtype "int list" | Arr2 dtype nat nat "int list list"

definition empty_array :: ndarray where
  "empty_array = Arr1 Float64 []"

text \<open>
  The attributes of a \<open>PolarImage\<close>. \<open>image_array\<close> is assigned only at the end of a
  constructor run that got that far: \<open>None\<close> stands for the missing attribute. The file
  is read once, so its content (or the failure to read it) stands for \<open>file_path\<close>.
\<close>

record polar_image =
  image_size :: int
  header :: header_dict
  image_data :: "bytes option"
  eoh :: "int option"
  image_array :: "ndarray option"

text \<open>
  What the program reports through its logger at the levels \<open>info\<close>, \<open>warning\<close>,
  \<open>error\<close> and \<open>critical\<close> (\<open>logger.exception\<close> logs at the level \<open>error\<close>), one
  constructor for each call site; a function returns the events it logged, in order,
  next to its result. Records of the level \<open>debug\<close> are left out.
\<close>

datatype log_event =
    Critical_processing_file
  | Critical_opening_file
  | Critical_no_EOH_marker
  | Critical_no_image_content
  | Critical_no_image_data
  | Critical_decoding_image_size
  | Critical_processing_image_content
  | Error_unsupported_DABIT int
  | Critical_creating_image_array
  | Info_created_image_array
  | Info_processed
  | Warning_header_not_initialized
  | Error_attribute_not_found string

text \<open>
  \<open>PolarImage.get\<close>: the value of the entry; \<open>None\<close> and a warning when the header is
  empty; \<open>None\<close> and the error that \<open>logger.exception\<close> reports when the key is
  missing. The program calls it with upper-case literals only, on which
  \<open>attribute.upper()\<close> changes nothing.
\<close>

definition get :: "polar_image \<Rightarrow> string \<Rightarrow> pyval \<times> log_event list" where
  "get self attribute =
     (if header self = [] then (VNone, [Warning_header_not_initialized])
      else case map_of (header self) attribute of
             None \<Rightarrow> (VNone, [Error_attribute_not_found attribute])
           | Some entry \<Rightarrow> (val entry, []))"

text \<open>\<open>int(x)\<close> and \<open>x == n\<close> for a header value \<open>x\<close> and an integer \<open>n\<close>.\<close>

definition py_int :: "pyval \<Rightarrow> pyerror + int" where
  "py_int x =
     (case x of
        VNone \<Rightarrow> Inl TypeError
      | VInt i \<Rightarrow> Inr i
      | VFloat f \<Rightarrow> int_of_float f
      | VBool b \<Rightarrow> Inr (if b then 1 else 0)
      | VStr s \<Rightarrow> int_of_str s)"

definition py_eq_int :: "pyval \<Rightarrow> int \<Rightarrow> bool" where
  "py_eq_int x n =
     (case x of
        VInt i \<Rightarrow> i = n
      | VFloat f \<Rightarrow> f = Fin (of_int n)
      | VBool b \<Rightarrow> (if b then 1 else 0) = n
      | _ \<Rightarrow> False)"

text \<open>Truth of an optional byte string: \<open>None\<close> and \<open>b""\<close> are false.\<close>

definition truthy :: "bytes option \<Rightarrow> bool" where
  "truthy b = (case b of None \<Rightarrow> False | Some x \<Rightarrow> x \<noteq> [])"

subsection \<open>Splitting the file\<close>

text \<open>
  \<open>PolarImage._process_file\<close>. The argument is what reading the file gave: \<open>None\<close> for an
  \<open>IOError\<close>. The result is \<open>(header_content, image_content)\<close> and the session with
  \<open>eoh\<close> set.
\<close>

definition process_file ::
  "bytes option \<Rightarrow> polar_image \<Rightarrow> (bytes option \<times> bytes option) \<times> polar_image \<times> log_event list" where
  "process_file file self =
     (case file of
        None \<Rightarrow> ((None, None), self, [Critical_opening_file])
      | Some content \<Rightarrow>
          let eoh_index = py_find content ''EOH'' in
          if eoh_index = - 1 then ((None, None), self, [])
          else
            let eoh_end_index =
                  eoh_index + py_find (slice_from eoh_index content) [CHR 0x0D, CHR 0x0A] + 2
            in ((Some (slice_to eoh_end_index content), Some (slice_from eoh_end_index content)),
                self\<lparr>eoh := Some eoh_end_index\<rparr>, []))"

subsection \<open>Parsing the header\<close>

text \<open>
  One round of the loop of \<open>PolarImage._process_header\<close>. A line without a blank makes the
  unpacking of \<open>key, value\<close> raise \<open>ValueError\<close>, and so can \<open>auto_type\<close>; the
  \<open>except ValueError\<close> of the loop then leaves the dictionary as it was.
\<close>

definition process_line :: "header_dict \<Rightarrow> string \<Rightarrow> header_dict" where
  "process_line header_dict line =
     (if startswith line ''CC'' \<or> startswith line ''**'' then header_dict
      else
        let text = join_sp (split_ws line) in
        case split_first_space text of
          [key, value] \<Rightarrow>
            if value = [] then header_dict
            else
              let cc_index = py_find value ''CC'' in
              if cc_index \<noteq> - 1 then
                (let new_value = strip (slice_to cc_index value);
                     descr = strip (slice_from (cc_index + 2) value)
                 in case auto_type new_value of
                      Inl e \<Rightarrow> header_dict
                    | Inr v \<Rightarrow>
                        AList.update key \<lparr>val = v, description = descr\<rparr> header_dict)
              else
                (case auto_type (strip value) of
                   Inl e \<Rightarrow> header_dict
                 | Inr v \<Rightarrow>
                     AList.update key \<lparr>val = v, description = ''N/A''\<rparr> header_dict)
        | _ \<Rightarrow> header_dict)"

definition process_header :: "polar_image \<Rightarrow> bytes \<Rightarrow> header_dict" where
  "process_header self header_content =
     (let header_lines = butlast (split_crlf header_content);
          header_dict = foldl process_line [] header_lines
      in AList.update ''EOH''
           \<lparr>val = (case eoh self of None \<Rightarrow> VNone | Some k \<Rightarrow> VInt k),
            description = ''End of Header character position''\<rparr>
           header_dict)"

subsection \<open>The image region\<close>

text \<open>
  \<open>PolarImage.get_image_size\<close>: the size prefix is 10 characters when \<open>DABIT\<close> is 12 and
  6 otherwise; a prefix that \<open>int\<close> rejects is logged and gives \<open>0\<close>. (\<open>get\<close> never
  raises, so the \<open>KeyError\<close> handler cannot run.)
\<close>

definition get_image_size :: "polar_image \<Rightarrow> bytes \<Rightarrow> int \<times> log_event list" where
  "get_image_size self image_content =
     (let (dabit, logs) = get self ''DABIT'';
          chars_describing_image_bytes = (if py_eq_int dabit 12 then 10 else 6 :: nat)
      in case int_of_str (take chars_describing_image_bytes image_content) of
           Inr n \<Rightarrow> (n, logs)
         | Inl e \<Rightarrow> (0, logs @ [Critical_decoding_image_size]))"

text \<open>
  \<open>PolarImage._process_image\<close>: stores the size, then drops a size prefix of the fixed
  width 10 from the image region. Nothing in its \<open>try\<close> block can raise.
\<close>

definition process_image :: "polar_image \<Rightarrow> bytes \<Rightarrow> bytes \<times> polar_image \<times> log_event list" where
  "process_image self image_content =
     (let (sz, logs) = get_image_size self image_content;
          chars_describing_image_bytes = (10 :: nat);
          data = drop chars_describing_image_bytes image_content
      in (data, self\<lparr>image_size := sz, image_data := Some data\<rparr>, logs))"

subsection \<open>The array operations of numpy\<close>

text \<open>
  \<open>np.frombuffer(buffer, dtype)\<close>: one element for each byte, or for each pair of bytes,
  low byte first; a byte count that is not a multiple of the element size raises.
\<close>

fun le16 :: "bytes \<Rightarrow> 16 word list" where
  "le16 (a # b # rest) = (of_char a OR push_bit 8 (of_char b)) # le16 rest"
| "le16 _ = []"

definition frombuffer :: "bytes option \<Rightarrow> dtype \<Rightarrow> pyerror + int list" where
  "frombuffer buffer dt =
     (case buffer of
        None \<Rightarrow> Inl TypeError
      | Some b \<Rightarrow>
          (case dt of
             UInt8 \<Rightarrow> Inr (map (\<lambda>c. uint (of_char c :: 8 word)) b)
           | UInt16 \<Rightarrow> if even (length b) then Inr (map uint (le16 b)) else Inl ValueError
           | _ \<Rightarrow> Inl TypeError))"

text \<open>Row \<open>i\<close> of a row-major buffer with rows of length \<open>c\<close> is \<open>xs[i*c : (i+1)*c]\<close>.\<close>

definition chunks :: "nat \<Rightarrow> nat \<Rightarrow> 'a list \<Rightarrow> 'a list list" where
  "chunks r c xs = map (\<lambda>i. take c (drop (i * c) xs)) [0..<r]"

definition npy_intp_max :: int where
  "npy_intp_max = 2 ^ 63 - 1"

text \<open>
  \<open>a.reshape((r, c))\<close> of a flat array. A dimension must fit the index type; a negative
  dimension is the one unknown that numpy infers from the element count, and two of
  them, or an element count that the known dimensions do not give exactly, raise.
\<close>

definition reshape :: "dtype \<Rightarrow> int list \<Rightarrow> int \<Rightarrow> int \<Rightarrow> pyerror + ndarray" where
  "reshape dt xs r c =
     (let n = int (length xs) in
      if npy_intp_max < r \<or> npy_intp_max < c \<or> r < - npy_intp_max - 1 \<or> c < - npy_intp_max - 1
      then Inl OverflowError
      else if r < 0 \<and> c < 0 then Inl ValueError
      else if r < 0 then
        (if c = 0 \<or> n mod c \<noteq> 0 then Inl ValueError
         else Inr (Arr2 dt (nat (n div c)) (nat c) (chunks (nat (n div c)) (nat c) xs)))
      else if c < 0 then
        (if r = 0 \<or> n mod r \<noteq> 0 then Inl ValueError
         else Inr (Arr2 dt (nat r) (nat (n div r)) (chunks (nat r) (nat (n div r)) xs)))
      else if r * c \<le> npy_intp_max \<and> r * c = n
      then Inr (Arr2 dt (nat r) (nat c) (chunks (nat r) (nat c) xs))
      else Inl ValueError)"

text \<open>\<open>a &= mask\<close>, element by element.\<close>

definition array_and :: "ndarray \<Rightarrow> int \<Rightarrow> ndarray" where
  "array_and a m =
     (case a of
        Arr1 dt xs \<Rightarrow> Arr1 dt (map (\<lambda>x. x AND m) xs)
      | Arr2 dt r c rows \<Rightarrow> Arr2 dt r c (map (map (\<lambda>x. x AND m)) rows))"

text \<open>\<open>a[:, 0] = 0\<close>: needs two dimensions and a column \<open>0\<close>.\<close>

definition set_column0 :: "ndarray \<Rightarrow> pyerror + ndarray" where
  "set_column0 a =
     (case a of
        Arr1 dt xs \<Rightarrow> Inl IndexError
      | Arr2 dt r c rows \<Rightarrow>
          if c = 0 then Inl IndexError
          else Inr (Arr2 dt r c (map (\<lambda>row. row[0 := 0]) rows)))"

subsection \<open>Decoding the samples\<close>

text \<open>
  The \<open>try\<close> block of \<open>PolarImage.get_image_array\<close>, with what it has logged when it
  ends; \<open>Inl\<close> is an exception on its way to the handler. \<open>//\<close> is floor division and
  raises on a zero divisor.
\<close>

definition get_image_array_try :: "polar_image \<Rightarrow> (pyerror + ndarray) \<times> log_event list" where
  "get_image_array_try self =
     (let (fifo, logs1) = get self ''FIFO'' in
      case py_int fifo of
        Inl e \<Rightarrow> (Inl e, logs1)
      | Inr no_of_samples_in_range \<Rightarrow>
     (let (dabit, logs2) = get self ''DABIT'' in
      case py_int dabit of
        Inl e \<Rightarrow> (Inl e, logs1 @ logs2)
      | Inr dabit_value \<Rightarrow>
          if dabit_value \<noteq> 12 \<and> dabit_value \<noteq> 8
          then (Inr empty_array, logs1 @ logs2 @ [Error_unsupported_DABIT dabit_value])
          else
            let divisor = (if dabit_value = 12 then 2 * no_of_samples_in_range
                           else no_of_samples_in_range);
                dt = (if dabit_value = 12 then UInt16 else UInt8);
                mask_opt = (if dabit_value = 12 then Some (0x0FFF :: int) else None)
            in
            if divisor = 0 then (Inl ZeroDivisionError, logs1 @ logs2)
            else
              let no_of_rays = image_size self div divisor in
              (case frombuffer (image_data self) dt of
                 Inl e \<Rightarrow> (Inl e, logs1 @ logs2)
               | Inr xs \<Rightarrow>
              (case reshape dt xs no_of_rays no_of_samples_in_range of
                 Inl e \<Rightarrow> (Inl e, logs1 @ logs2)
               | Inr reshaped \<Rightarrow>
                   let masked = (case mask_opt of None \<Rightarrow> reshaped
                                 | Some m \<Rightarrow> array_and reshaped m)
                   in if dabit_value = 8
                      then (case set_column0 masked of
                              Inl e \<Rightarrow> (Inl e, logs1 @ logs2)
                            | Inr a \<Rightarrow> (Inr a, logs1 @ logs2 @ [Info_created_image_array]))
                      else (Inr masked, logs1 @ logs2 @ [Info_created_image_array])))))"

text \<open>
  \<open>PolarImage.get_image_array\<close>: every exception ends in the handler, which logs it and
  returns the empty array.
\<close>

definition get_image_array :: "polar_image \<Rightarrow> ndarray \<times> log_event list" where
  "get_image_array self =
     (case get_image_array_try self of
        (Inl e, logs) \<Rightarrow> (empty_array, logs @ [Critical_creating_image_array])
      | (Inr a, logs) \<Rightarrow> (a, logs))"

subsection \<open>The constructor\<close>

definition new_polar_image :: polar_image where
  "new_polar_image =
     \<lparr>image_size = 0, header = [], image_data = None, eoh = None, image_array = None\<rparr>"

text \<open>
  \<open>PolarImage.__init__\<close>, on what reading the file gave. Each stage runs only if the one
  before produced something; the first that did not is logged and ends the constructor.
  (\<open>_process_file\<close> raises nothing, so the handler around it cannot run.)
\<close>

definition init :: "bytes option \<Rightarrow> polar_image \<times> log_event list" where
  "init file =
     (let ((header_content, image_content), s1, l1) = process_file file new_polar_image in
      if \<not> truthy header_content then (s1, l1 @ [Critical_no_EOH_marker])
      else
        let s2 = s1\<lparr>header := process_header s1 (the header_content)\<rparr> in
        if \<not> truthy image_content then (s2, l1 @ [Critical_no_image_content])
        else
          let (data, s3, l3) = process_image s2 (the image_content);
              s4 = s3\<lparr>image_data := Some data\<rparr>
          in if \<not> truthy (image_data s4) then (s4, l1 @ l3 @ [Critical_no_image_data])
             else
               let (arr, l5) = get_image_array s4
               in (s4\<lparr>image_array := Some arr\<rparr>, l1 @ l3 @ l5 @ [Info_processed]))"

section \<open>Rendering\<close>

text \<open>
  The width of the near-range zone in \<open>PolarImage.render\<close>, from
  \<open>sampling_frequency\<close> and \<open>sampling_delay_range\<close>. The divisions are float divisions;
  an integer operand is converted to a float first.
\<close>

definition ceil_times_2 :: "pyfloat \<Rightarrow> pyerror + int" where
  "ceil_times_2 x = (case int_of_float (fceil x) of Inl e \<Rightarrow> Inl e | Inr k \<Rightarrow> Inr (k * 2))"

definition pixels_to_omit :: "int \<Rightarrow> int \<Rightarrow> pyerror + int" where
  "pixels_to_omit sampling_frequency sampling_delay_range =
     (if sampling_frequency = 40 then
        (case float_of_int sampling_delay_range of
           Inl e \<Rightarrow> Inl e
         | Inr sdr \<Rightarrow>
             (case fdiv sdr (Fin (375 / 100)) of
                Inl e \<Rightarrow> Inl e
              | Inr q \<Rightarrow> ceil_times_2 q))
      else
        let c = Fin 300000000 in
        (case float_of_int (2 * sampling_frequency) of
           Inl e \<Rightarrow> Inl e
         | Inr f2 \<Rightarrow>
             (case fdiv c (fmul f2 (Fin 1000000)) of
                Inl e \<Rightarrow> Inl e
              | Inr meters_per_pixel \<Rightarrow>
                  (case float_of_int sampling_delay_range of
                     Inl e \<Rightarrow> Inl e
                   | Inr sdr \<Rightarrow>
                       (case fdiv sdr meters_per_pixel of
                          Inl e \<Rightarrow> Inl e
                        | Inr q \<Rightarrow> ceil_times_2 q)))))"

text \<open>
  \<open>np.full((rows, columns), fill)\<close> followed by
  \<open>np.concatenate((new_columns, image_array), axis=1)\<close>: a negative (or oversized) column
  count raises, and so does an array that has not two dimensions. The result takes the
  wider element type of the two.
\<close>

definition shape0 :: "ndarray \<Rightarrow> nat" where
  "shape0 a = (case a of Arr1 dt xs \<Rightarrow> length xs | Arr2 dt r c rows \<Rightarrow> r)"

definition prepend_columns :: "int \<Rightarrow> int \<Rightarrow> ndarray \<Rightarrow> pyerror + ndarray" where
  "prepend_columns additional_columns fill a =
     (if additional_columns < 0 \<or> npy_intp_max < additional_columns then Inl ValueError
      else case a of
             Arr1 dt xs \<Rightarrow> Inl ValueError
           | Arr2 dt r c rows \<Rightarrow>
               Inr (Arr2 (if dt = Float64 then Float64 else Int64) r (nat additional_columns + c)
                      (map (\<lambda>row. replicate (nat additional_columns) fill @ row) rows)))"

text \<open>\<open>2 * x\<close> for a header value \<open>x\<close>.\<close>

definition py_double :: "pyval \<Rightarrow> pyerror + pyval" where
  "py_double x =
     (case x of
        VNone \<Rightarrow> Inl TypeError
      | VInt i \<Rightarrow> Inr (VInt (2 * i))
      | VFloat f \<Rightarrow> Inr (VFloat (fmul (Fin 2) f))
      | VBool b \<Rightarrow> Inr (VInt (if b then 2 else 0))
      | VStr s \<Rightarrow> Inr (VStr (s @ s)))"

text \<open>
  What \<open>render\<close> hands to the plotting library, which is not part of the program: the
  matrix that is drawn, the direction of the angle axis, and the offset of the angle axis
  in degrees (\<open>None\<close> for the fixed offset \<open>\<pi>/2\<close>). The calls into the library are
  taken to return.
\<close>

record figure =
  mesh :: ndarray
  theta_direction :: int
  theta_offset_degrees :: "int option"

text \<open>
  \<open>PolarImage.render\<close>. It has no \<open>try\<close>: an exception leaves through the caller, with
  the session as it is at that point and with what \<open>get\<close> has logged until then. The new
  matrix is assigned to \<open>self.image_array\<close> before the figure is made and before
  \<open>BO2RA\<close> is read.
\<close>

definition render ::
  "bool \<Rightarrow> bool \<Rightarrow> polar_image \<Rightarrow> (pyerror + figure) \<times> polar_image \<times> log_event list" where
  "render orient toggle_direction self =
     (let (sfreq, logs1) = get self ''SFREQ'' in
      case py_int sfreq of
        Inl e \<Rightarrow> (Inl e, self, logs1)
      | Inr sampling_frequency \<Rightarrow>
     (let (sdrng, logs2) = get self ''SDRNG'' in
      case py_int sdrng of
        Inl e \<Rightarrow> (Inl e, self, logs1 @ logs2)
      | Inr sampling_delay_range \<Rightarrow>
     (case pixels_to_omit sampling_frequency sampling_delay_range of
        Inl e \<Rightarrow> (Inl e, self, logs1 @ logs2)
      | Inr additional_columns \<Rightarrow>
          let (dabit, logs3) = get self ''DABIT'';
              HIGHEST_BRIGHTNESS = (if py_eq_int dabit 12 then 4095 else 255);
              logs = logs1 @ logs2 @ logs3
          in
          (case image_array self of
             None \<Rightarrow> (Inl AttributeError, self, logs)
           | Some a \<Rightarrow>
          (case prepend_columns additional_columns HIGHEST_BRIGHTNESS a of
             Inl e \<Rightarrow> (Inl e, self, logs)
           | Inr new_array \<Rightarrow>
               let self' = self\<lparr>image_array := Some new_array\<rparr>;
                   direction = (if toggle_direction then - 1 else 1)
               in if orient then
                    (let (bo2ra_value, logs4) = get self' ''BO2RA'' in
                     case py_double bo2ra_value of
                       Inl e \<Rightarrow> (Inl e, self', logs @ logs4)
                     | Inr d \<Rightarrow>
                         (case py_int d of
                            Inl e \<Rightarrow> (Inl e, self', logs @ logs4)
                          | Inr bo2ra \<Rightarrow>
                              (Inr \<lparr>mesh = new_array, theta_direction = direction,
                                    theta_offset_degrees = Some (- bo2ra)\<rparr>,
                               self', logs @ logs4)))
                  else (Inr \<lparr>mesh = new_array, theta_direction = direction,
                              theta_offset_degrees = None\<rparr>, self', logs))))))"

text \<open>
  \<open>PolarImage.saveto\<close> and \<open>PolarImage.save_with_metadata\<close> both start with
  \<open>self.render(orient=True, toggle_direction=False)\<close>; what they write to the file
  system is the figure and, for the second, the header next to it.
\<close>

definition saveto :: "polar_image \<Rightarrow> (pyerror + figure) \<times> polar_image \<times> log_event list" where
  "saveto self = render True False self"

definition save_with_metadata ::
  "polar_image \<Rightarrow> (pyerror + figure \<times> header_dict) \<times> polar_image \<times> log_event list" where
  "save_with_metadata self =
     (case render True False self of
        (Inl e, self', logs) \<Rightarrow> (Inl e, self', logs)
      | (Inr fig, self', logs) \<Rightarrow> (Inr (fig, header self'), self', logs))"

section \<open>Example captures\<close>

text \<open>
  Small capture files, for running the program on: a header with \<open>DABIT\<close>, \<open>FIFO\<close> and
  the \<open>EOH\<close> line, then the image region.
\<close>

definition crlf :: bytes where
  "crlf = [CHR 0x0D, CHR 0x0A]"

definition header8 :: bytes where
  "header8 = ''DABIT 8 CC bits per sample'' @ crlf @ ''FIFO 2 CC samples per ray'' @ crlf
             @ ''EOH'' @ crlf"

definition header12 :: bytes where
  "header12 = ''DABIT 12 CC bits per sample'' @ crlf @ ''FIFO 2 CC samples per ray'' @ crlf
              @ ''EOH'' @ crlf"

text \<open>An 8-bit capture as the format has it: a 6-digit size, then that many bytes.\<close>

definition capture8 :: bytes where
  "capture8 = header8 @ ''000008''
              @ [CHR 0x01, CHR 0x02, CHR 0x03, CHR 0x04, CHR 0x05, CHR 0x06, CHR 0x07, CHR 0x08]"

text \<open>An 8-bit file with four more bytes between the 6-digit size and the samples.\<close>

definition capture8_shifted :: bytes where
  "capture8_shifted = header8 @ ''000004'' @ ''xxxx'' @ [CHR 0x01, CHR 0x02, CHR 0x03, CHR 0x04]"

text \<open>A 12-bit capture as the format has it: a 10-digit size, then that many bytes.\<close>

definition capture12 :: bytes where
  "capture12 = header12 @ ''0000000008''
               @ [CHR 0x01, CHR 0x02, CHR 0x03, CHR 0xFF, CHR 0x05, CHR 0x06, CHR 0x07, CHR 0x08]"

text \<open>A 12-bit capture cut short: the size says 5, four bytes follow.\<close>

definition capture12_truncated :: bytes where
  "capture12_truncated = header12 @ ''0000000005'' @ [CHR 0x01, CHR 0x02, CHR 0x03, CHR 0xFF]"

text \<open>A 12-bit file whose size prefix is not a number.\<close>

definition capture12_bad_prefix :: bytes where
  "capture12_bad_prefix = header12 @ ''abcdefghij'' @ [CHR 0x01, CHR 0x02, CHR 0x03, CHR 0xFF]"

text \<open>A file with \<open>DABIT\<close> 4 and no \<open>FIFO\<close> line, and one whose \<open>DABIT\<close> line reads 12.5.\<close>

definition capture4_no_fifo :: bytes where
  "capture4_no_fifo = ''DABIT 4 CC bits per sample'' @ crlf @ ''EOH'' @ crlf
                      @ ''000004'' @ ''xxxx'' @ [CHR 0x01, CHR 0x02, CHR 0x03, CHR 0x04]"

definition capture_dabit_12_5 :: bytes where
  "capture_dabit_12_5 =
     ''DABIT 12.5 CC bits per sample'' @ crlf @ ''FIFO 2 CC samples per ray'' @ crlf
     @ ''EOH'' @ crlf @ ''000008'' @ ''xxxx''
     @ [CHR 0x01, CHR 0x02, CHR 0x03, CHR 0xFF, CHR 0x05, CHR 0x06, CHR 0x07, CHR 0x08]"

text \<open>
  Two 12-bit captures with the header fields that rendering reads; they differ in
  \<open>SDRNG\<close> only.
\<close>

definition render_header :: "string \<Rightarrow> bytes" where
  "render_header sdrng =
     ''DABIT 12 CC bits per sample'' @ crlf @ ''FIFO 2 CC samples per ray'' @ crlf
     @ ''SFREQ 40 CC sampling frequency'' @ crlf @ ''SDRNG '' @ sdrng @ '' CC sampling delay'' @ crlf
     @ ''BO2RA 10 CC bow to radar'' @ crlf @ ''EOH'' @ crlf"

definition capture_sdrng_0 :: bytes where
  "capture_sdrng_0 = render_header ''0'' @ ''0000000008''
     @ [CHR 0x01, CHR 0x02, CHR 0x03, CHR 0xFF, CHR 0x05, CHR 0x06, CHR 0x07, CHR 0x08]"

definition capture_sdrng_15 :: bytes where
  "capture_sdrng_15 = render_header ''15'' @ ''0000000008''
     @ [CHR 0x01, CHR 0x02, CHR 0x03, CHR 0xFF, CHR 0x05, CHR 0x06, CHR 0x07, CHR 0x08]"

text \<open>A file with \<open>DABIT\<close> 4 and a \<open>FIFO\<close> line, and two payloads.\<close>

definition capture4 :: bytes where
  "capture4 = ''DABIT 4 CC bits per sample'' @ crlf @ ''FIFO 2 CC samples per ray'' @ crlf
              @ ''EOH'' @ crlf @ ''000004'' @ ''xxxx'' @ [CHR 0x01, CHR 0x02, CHR 0x03, CHR 0x04]"

definition payload8 :: bytes where
  "payload8 = [CHR 0x01, CHR 0x02, CHR 0x03, CHR 0xFF, CHR 0x05, CHR 0x06, CHR 0x07, CHR 0x08]"

definition payload6 :: bytes where
  "payload6 = [CHR 0x01, CHR 0x02, CHR 0x03, CHR 0xFF, CHR 0x05, CHR 0x06]"

text \<open>A third capture for rendering, with \<open>SDRNG\<close> 3.\<close>

definition capture_sdrng_3 :: bytes where
  "capture_sdrng_3 = render_header ''3'' @ ''0000000008'' @ payload8"

text \<open>
  Captures for rendering at other sampling frequencies, and one whose \<open>SDRNG\<close> line has a
  fraction.
\<close>

definition render_header_at :: "string \<Rightarrow> string \<Rightarrow> bytes" where
  "render_header_at sfreq sdrng =
     ''DABIT 12 CC bits per sample'' @ crlf @ ''FIFO 2 CC samples per ray'' @ crlf
     @ ''SFREQ '' @ sfreq @ '' CC sampling frequency'' @ crlf
     @ ''SDRNG '' @ sdrng @ '' CC sampling delay'' @ crlf
     @ ''BO2RA 10 CC bow to radar'' @ crlf @ ''EOH'' @ crlf"

definition capture_sfreq_7 :: bytes where
  "capture_sfreq_7 = render_header_at ''7'' ''150'' @ ''0000000008'' @ payload8"

definition capture_sfreq_20 :: bytes where
  "capture_sfreq_20 = render_header_at ''20'' ''20'' @ ''0000000008'' @ payload8"

definition capture_sdrng_3_9 :: bytes where
  "capture_sdrng_3_9 = render_header ''3.9'' @ ''0000000008'' @ payload8"

text \<open>A file without a \<open>DABIT\<close> line, whose image region does not start with a number.\<close>

definition capture_no_dabit :: bytes where
  "capture_no_dabit = ''FIFO 2 CC samples per ray'' @ crlf @ ''EOH'' @ crlf
                      @ ''abcdefghij'' @ payload8"

section \<open>The blanking width as the specification words it\<close>

text \<open>
  The specification gives the near-range blanking width as: if \<open>SFREQ == 40\<close>,
  \<open>pixelsToOmit = ceil(SDRNG / 3.75) * 2\<close>; otherwise
  \<open>metersPerPixel = c / (2 * SFREQ_MHz * 1e6)\<close> with \<open>c = 3e8\<close>, then
  \<open>pixelsToOmit = ceil(SDRNG / metersPerPixel) * 2\<close>. The definitions below are these
  formulas over the rational numbers, with nothing rounded.
\<close>

definition metersPerPixel_spec :: "rat \<Rightarrow> rat" where
  "metersPerPixel_spec SFREQ_MHz = 300000000 / (2 * SFREQ_MHz * 1000000)"

definition pixelsToOmit_spec :: "rat \<Rightarrow> rat \<Rightarrow> int" where
  "pixelsToOmit_spec SFREQ SDRNG =
     (if SFREQ = 40 then \<lceil>SDRNG / (375 / 100)\<rceil> * 2
      else \<lceil>SDRNG / metersPerPixel_spec SFREQ\<rceil> * 2)"

text \<open>
  A matrix with \<open>k\<close> columns of \<open>fill\<close> in front of every ray, and the brightness that
  \<open>render\<close> fills them with.
\<close>

definition widened :: "int \<Rightarrow> int \<Rightarrow> ndarray \<Rightarrow> ndarray" where
  "widened k fill a =
     (case a of
        Arr1 dt xs \<Rightarrow> a
      | Arr2 dt r c rows \<Rightarrow>
          Arr2 (if dt = Float64 then Float64 else Int64) r (nat k + c)
            (map (\<lambda>row. replicate (nat k) fill @ row) rows))"

definition highest_brightness :: "polar_image \<Rightarrow> int" where
  "highest_brightness s = (if py_eq_int (fst (get s ''DABIT'')) 12 then 4095 else 255)"

section \<open>Facts about the text operations\<close>

lemma startswith_iff: "startswith s p \<longleftrightarrow> (\<exists>post. s = p @ post)"
  unfolding startswith_def
  by (metis append_eq_conv_conj append_take_drop_id)

lemma find_sub_None_iff:
  "find_sub s sub = None \<longleftrightarrow> \<not> (\<exists>pre post. s = pre @ sub @ post)"
proof (induction s)
  case Nil
  then show ?case by auto
next
  case (Cons c cs)
  show ?case
  proof (cases "startswith (c # cs) sub")
    case True
    then obtain post where "c # cs = sub @ post" by (auto simp: startswith_iff)
    then have "c # cs = [] @ sub @ post" by simp
    with True show ?thesis by (metis find_sub.simps(2) option.distinct(1))
  next
    case False
    have "(\<exists>pre post. c # cs = pre @ sub @ post) \<longleftrightarrow> (\<exists>pre post. cs = pre @ sub @ post)"
    proof
      assume "\<exists>pre post. c # cs = pre @ sub @ post"
      then obtain pre post where e: "c # cs = pre @ sub @ post" by blast
      show "\<exists>pre post. cs = pre @ sub @ post"
      proof (cases pre)
        case Nil
        with e False show ?thesis by (auto simp: startswith_iff)
      next
        case (Cons a pre')
        with e have "cs = pre' @ sub @ post" by simp
        then show ?thesis by blast
      qed
    next
      assume "\<exists>pre post. cs = pre @ sub @ post"
      then obtain pre post where "cs = pre @ sub @ post" by blast
      then have "c # cs = (c # pre) @ sub @ post" by simp
      then show "\<exists>pre post. c # cs = pre @ sub @ post" by blast
    qed
    with False Cons.IH show ?thesis by simp
  qed
qed

lemma py_find_absent:
  "py_find s sub = - 1 \<longleftrightarrow> \<not> (\<exists>pre post. s = pre @ sub @ post)"
  unfolding py_find_def using find_sub_None_iff [of s sub]
  by (auto split: option.splits)

section \<open>Facts about numbers from text\<close>

lemma digits_val_foldl_bound:
  assumes "list_all is_ascii_digit ds" "0 \<le> acc"
  shows "0 \<le> foldl (\<lambda>acc c. 10 * acc + digit_val c) acc ds
       \<and> foldl (\<lambda>acc c. 10 * acc + digit_val c) acc ds < (acc + 1) * 10 ^ length ds"
  using assms
proof (induction ds arbitrary: acc)
  case Nil
  then show ?case by simp
next
  case (Cons d ds)
  from Cons.prems have d: "0 \<le> digit_val d" "digit_val d \<le> 9"
    by (auto simp: is_ascii_digit_def digit_val_def Let_def)
  let ?a = "10 * acc + digit_val d"
  from d Cons.prems have a0: "0 \<le> ?a" by simp
  from Cons.prems have "list_all is_ascii_digit ds" by simp
  from Cons.IH [OF this a0]
  have ih: "0 \<le> foldl (\<lambda>acc c. 10 * acc + digit_val c) ?a ds"
    "foldl (\<lambda>acc c. 10 * acc + digit_val c) ?a ds < (?a + 1) * 10 ^ length ds" by auto
  from d have "?a + 1 \<le> (acc + 1) * 10" by simp
  then have "(?a + 1) * 10 ^ length ds \<le> ((acc + 1) * 10) * 10 ^ length ds"
    by (intro mult_right_mono) simp_all
  also have "\<dots> = (acc + 1) * 10 ^ length (d # ds)" by simp
  finally have "(?a + 1) * 10 ^ length ds \<le> (acc + 1) * 10 ^ length (d # ds)" .
  with ih have "foldl (\<lambda>acc c. 10 * acc + digit_val c) ?a ds < (acc + 1) * 10 ^ length (d # ds)"
    by linarith
  with ih(1) show ?case by simp
qed

lemma digits_val_bound:
  assumes "list_all is_ascii_digit ds"
  shows "0 \<le> digits_val ds \<and> digits_val ds < 10 ^ length ds"
  using digits_val_foldl_bound [OF assms, of 0] by (simp add: digits_val_def)

lemma length_strip_with: "length (strip_with P s) \<le> length s"
proof -
  have "length (dropWhile P (rev (dropWhile P s))) \<le> length (rev (dropWhile P s))"
    by (rule length_dropWhile_le)
  also have "\<dots> \<le> length s" by (simp add: length_dropWhile_le)
  finally show ?thesis by (simp add: strip_with_def)
qed

lemma length_split_sign: "length (snd (split_sign s)) \<le> length s"
  by (auto simp: split_sign_def split: list.splits)

lemma int_of_str_bound:
  assumes "int_of_str s = Inr v"
  shows "\<bar>v\<bar> < 10 ^ length s"
proof -
  let ?t = "strip_with isspace_num s"
  let ?u = "drop_underscores ?t"
  obtain neg ds where sp: "split_sign ?u = (neg, ds)" by (cases "split_sign ?u")
  from assms sp have ds: "list_all is_ascii_digit ds" and v: "v = (if neg then - digits_val ds else digits_val ds)"
    by (auto simp: int_of_str_def Let_def split: if_splits)
  from digits_val_bound [OF ds] v have "\<bar>v\<bar> < 10 ^ length ds" by auto
  moreover have "length ds \<le> length ?u" using length_split_sign [of ?u] sp by simp
  moreover have "length ?u \<le> length ?t" by (simp add: drop_underscores_def)
  moreover have "length ?t \<le> length s" by (rule length_strip_with)
  ultimately have "length ds \<le> length s" by linarith
  then have "(10::int) ^ length ds \<le> 10 ^ length s" by (intro power_increasing) simp_all
  with \<open>\<bar>v\<bar> < 10 ^ length ds\<close> show ?thesis by linarith
qed


lemma digit_not_space: "is_ascii_digit c \<Longrightarrow> \<not> isspace_num c"
  by (auto simp: is_ascii_digit_def isspace_num_def Let_def)

lemma digit_not_underscore: "is_ascii_digit c \<Longrightarrow> c \<noteq> CHR ''_''"
  by (auto simp: is_ascii_digit_def Let_def)

lemma digit_not_sign: "is_ascii_digit c \<Longrightarrow> c \<noteq> CHR ''-'' \<and> c \<noteq> CHR ''+''"
  by (auto simp: is_ascii_digit_def Let_def)

lemma strip_with_id:
  assumes "s \<noteq> []" "\<not> P (hd s)" "\<not> P (last s)"
  shows "strip_with P s = s"
proof -
  from assms have "dropWhile P s = s" by (cases s) auto
  moreover from assms have "dropWhile P (rev s) = rev s"
    by (cases "rev s") (auto simp: hd_rev)
  ultimately show ?thesis by (simp add: strip_with_def)
qed

lemma underscores_ok_digits: "list_all is_ascii_digit s \<Longrightarrow> underscores_ok prev s"
  by (induction s arbitrary: prev) (auto simp: digit_not_underscore)

lemma int_of_str_digits:
  assumes "s \<noteq> []" "list_all is_ascii_digit s"
  shows "int_of_str s = Inr (digits_val s)"
proof -
  from assms have h: "is_ascii_digit (hd s)" and l: "is_ascii_digit (last s)"
    by (auto simp: list_all_iff)
  with assms(1) have st: "strip_with isspace_num s = s"
    by (intro strip_with_id) (auto dest: digit_not_space)
  from assms(2) have du: "drop_underscores s = s"
    by (auto simp: drop_underscores_def list_all_iff digit_not_underscore intro!: filter_True)
  from assms(1) h have ss: "split_sign s = (False, s)"
    by (cases s) (auto simp: split_sign_def dest: digit_not_sign)
  from assms st du ss show ?thesis
    by (simp add: int_of_str_def underscores_ok_digits)
qed

lemma auto_type_digits:
  assumes "s \<noteq> []" "list_all is_ascii_digit s"
  shows "auto_type s = Inr (VInt (digits_val s))"
proof -
  from assms have "isdigit s" by (auto simp: isdigit_def is_digit_char_def list_all_iff)
  with int_of_str_digits [OF assms] show ?thesis by (simp add: auto_type_def)
qed

lemma float_of_str_error: "float_of_str s = Inl e \<Longrightarrow> e = ValueError"
  by (auto simp: float_of_str_def decimal_of_def exponent_of_def Let_def
           split: if_splits prod.splits sum.splits list.splits)

lemma auto_type_order:
  "auto_type s =
     (if isdigit s then (case int_of_str s of Inl e \<Rightarrow> Inl e | Inr i \<Rightarrow> Inr (VInt i))
      else case float_of_str s of
             Inr x \<Rightarrow> Inr (VFloat x)
           | Inl e \<Rightarrow> if lower s = ''true'' \<or> lower s = ''false''
                      then Inr (VBool (lower s = ''true'')) else Inr (VStr s))"
  by (auto simp: auto_type_def dest: float_of_str_error split: sum.splits)

lemma digit_char_plain:
  "is_digit_char c \<Longrightarrow> \<not> isspace_num c \<and> c \<noteq> CHR ''_'' \<and> c \<noteq> CHR ''-'' \<and> c \<noteq> CHR ''+''"
  by (auto simp: is_digit_char_def is_ascii_digit_def isspace_num_def Let_def)

lemma underscores_ok_digit_chars: "list_all is_digit_char s \<Longrightarrow> underscores_ok prev s"
  by (induction s arbitrary: prev) (auto dest: digit_char_plain)

lemma int_of_str_isdigit:
  assumes "isdigit s"
  shows "int_of_str s = (if list_all is_ascii_digit s then Inr (digits_val s) else Inl ValueError)"
proof -
  from assms have ne: "s \<noteq> []" and all: "list_all is_digit_char s" by (auto simp: isdigit_def)
  then have h: "is_digit_char (hd s)" and l: "is_digit_char (last s)"
    by (auto simp: list_all_iff)
  with ne have st: "strip_with isspace_num s = s"
    by (intro strip_with_id) (auto dest: digit_char_plain)
  from all have du: "drop_underscores s = s"
    by (auto simp: drop_underscores_def list_all_iff dest: digit_char_plain intro!: filter_True)
  from ne h have ss: "split_sign s = (False, s)"
    by (cases s) (auto simp: split_sign_def dest: digit_char_plain)
  from ne all st du ss show ?thesis
    by (simp add: int_of_str_def underscores_ok_digit_chars)
qed

lemma auto_type_raises_iff:
  "(\<exists>e. auto_type s = Inl e) \<longleftrightarrow> isdigit s \<and> \<not> list_all is_ascii_digit s"
proof (cases "isdigit s")
  case True
  with int_of_str_isdigit [OF True] show ?thesis by (simp add: auto_type_def)
next
  case False
  then show ?thesis
    by (auto simp: auto_type_def dest: float_of_str_error split: sum.splits)
qed

section \<open>Facts about binary64 arithmetic\<close>

lemma overflow_threshold_eq: "overflow_threshold = 2 ^ 1024"
  by (simp add: overflow_threshold_def)

lemma pow_int_powi: "pow_int 2 e = (2 :: rat) powi e"
  by (simp add: pow_int_def power_int_def power_one_over inverse_eq_divide)

lemma pow_int_pos: "0 < pow_int 2 e"
  by (simp add: pow_int_powi)

lemma floor_log2_le:
  assumes "0 < a"
  shows "pow_int 2 (floor_log2 a) \<le> a"
proof -
  obtain n d where q: "quotient_of a = (n, d)" by (cases "quotient_of a")
  then have d: "0 < d" by (rule quotient_of_denom_pos)
  from q have a: "a = of_int n / of_int d" by (rule quotient_of_div)
  from assms a d have n: "0 < n" by (simp add: zero_less_divide_iff)
  let ?k = "bitlen n - bitlen d"
  show ?thesis
  proof (cases "pow_int 2 ?k \<le> a")
    case True
    with q show ?thesis by (simp add: floor_log2_def)
  next
    case False
    with q have fl: "floor_log2 a = ?k - 1" by (simp add: floor_log2_def)
    from bitlen_bounds [OF n] have nl: "(2 :: int) ^ nat (bitlen n - 1) \<le> n" by simp
    from bitlen_bounds [OF d] have du: "d < 2 ^ nat (bitlen d)" by simp
    from n have bn: "1 \<le> bitlen n" by (simp add: bitlen_alt_def)
    have bd: "0 \<le> bitlen d" by (rule bitlen_nonneg)
    from nl have nl': "(2 :: rat) powi (bitlen n - 1) \<le> of_int n"
    proof -
      from nl have "rat_of_int (2 ^ nat (bitlen n - 1)) \<le> of_int n" by (simp only: of_int_le_iff)
      with bn show ?thesis by (simp add: power_int_def)
    qed
    from du have du': "of_int d \<le> (2 :: rat) powi (bitlen d)"
    proof -
      from du have "rat_of_int d \<le> of_int (2 ^ nat (bitlen d))" by (simp only: of_int_le_iff)
      with bd show ?thesis by (simp add: power_int_def)
    qed
    have "(2 :: rat) powi (?k - 1) = 2 powi (bitlen n - 1) / 2 powi (bitlen d)"
      by (simp add: power_int_diff)
    also have "\<dots> \<le> of_int n / 2 powi (bitlen d)"
      using nl' by (intro divide_right_mono) simp_all
    also have "\<dots> \<le> of_int n / of_int d"
      using du' d n by (intro divide_left_mono) simp_all
    finally have "(2 :: rat) powi (?k - 1) \<le> a" by (simp only: a)
    then show ?thesis by (simp only: fl pow_int_powi)
  qed
qed

lemma floor_log2_upper:
  assumes "0 < a" "a < 2 ^ Suc L"
  shows "floor_log2 a \<le> int L"
proof -
  have "(2 :: rat) powi (int (Suc L)) = 2 ^ Suc L" by (rule power_int_of_nat)
  with floor_log2_le [OF assms(1)] assms(2)
  have "(2 :: rat) powi (floor_log2 a) < 2 powi (int (Suc L))"
    by (simp only: pow_int_powi)
  then have "floor_log2 a < int (Suc L)"
    by (intro power_int_le_imp_less_exp [of "2 :: rat"]) simp_all
  then show ?thesis by simp
qed

lemma round_half_even_error: "\<bar>of_int (round_half_even x) - x\<bar> \<le> 1 / 2"
proof -
  have "of_int \<lfloor>x\<rfloor> \<le> x" "x < of_int \<lfloor>x\<rfloor> + 1" by linarith+
  then show ?thesis by (auto simp: round_half_even_def Let_def)
qed

lemma round_half_even_of_int: "round_half_even (of_int z) = z"
  by (simp add: round_half_even_def)

lemma round64_near:
  assumes "0 < q" "q < 2 ^ 48"
  shows "\<exists>v. round64 q = Fin v \<and> \<bar>v - q\<bar> \<le> 1 / 64 \<and> (\<forall>z. q = of_int z \<longrightarrow> v = q)"
proof -
  let ?e = "max (floor_log2 q - 52) (- 1074)"
  let ?n = "nat (- ?e)"
  let ?m = "round_half_even (q / pow_int 2 ?e)"
  let ?v = "of_int ?m * pow_int 2 ?e"
  from floor_log2_upper [OF assms(1), of 47] assms(2) have "floor_log2 q \<le> 47" by simp
  then have e: "?e \<le> - 5" by simp
  then have P: "pow_int 2 ?e = 1 / 2 ^ ?n" by (simp add: pow_int_def)
  from e have n5: "5 \<le> ?n" by simp
  then have "(2 :: rat) ^ 5 \<le> 2 ^ ?n" by (intro power_increasing) simp_all
  then have P32: "1 / 2 ^ ?n \<le> (1 :: rat) / 32" by (simp add: field_simps)
  have Ppos: "(0 :: rat) < 1 / 2 ^ ?n" by simp
  have "\<bar>of_int ?m - q / pow_int 2 ?e\<bar> \<le> 1 / 2" by (rule round_half_even_error)
  then have "\<bar>of_int ?m - q * 2 ^ ?n\<bar> \<le> 1 / 2" by (simp add: P)
  then have "\<bar>of_int ?m - q * 2 ^ ?n\<bar> * (1 / 2 ^ ?n) \<le> 1 / 2 * (1 / 2 ^ ?n)"
    by (intro mult_right_mono) simp_all
  moreover have "\<bar>of_int ?m - q * 2 ^ ?n\<bar> * (1 / 2 ^ ?n) = \<bar>?v - q\<bar>"
  proof -
    have "?v - q = (of_int ?m - q * 2 ^ ?n) * (1 / 2 ^ ?n)" by (simp add: P field_simps)
    then show ?thesis by (simp only: abs_mult) simp
  qed
  ultimately have "\<bar>?v - q\<bar> \<le> 1 / 2 * (1 / 2 ^ ?n)" by simp
  with P32 have err: "\<bar>?v - q\<bar> \<le> 1 / 64" by linarith
  have exact: "\<forall>z. q = of_int z \<longrightarrow> ?v = q"
  proof (intro allI impI)
    fix z assume z: "q = of_int z"
    have "q / pow_int 2 ?e = q * 2 ^ ?n" by (simp add: P)
    also have "\<dots> = of_int (z * 2 ^ ?n)" by (simp add: z)
    finally have "?m = z * 2 ^ ?n" by (simp only: round_half_even_of_int)
    then have "?v = of_int (z * 2 ^ ?n) * (1 / 2 ^ ?n)" by (simp only: P)
    also have "\<dots> = of_int z" by simp
    finally show "?v = q" by (simp only: z)
  qed
  from err assms(2) have "?v < 2 ^ 48 + 1" by linarith
  also have "\<dots> < (2 :: rat) ^ 1024" by simp
  finally have small: "\<not> 2 ^ 1024 \<le> ?v" by simp
  from assms(1) small have "round64 q = Fin ?v"
    by (simp add: round64_def Let_def overflow_threshold_eq)
  with err exact show ?thesis by blast
qed

lemma ceil_times_2_Fin: "ceil_times_2 (Fin v) = Inr (\<lceil>v\<rceil> * 2)"
  by (simp add: ceil_times_2_def fceil_def int_of_float_def)

lemma ceiling_near_fifteenths:
  fixes j :: int and v :: rat
  assumes "\<bar>v - of_int j / 15\<bar> \<le> 1 / 64" "15 dvd j \<longrightarrow> v = of_int j / 15"
  shows "\<lceil>v\<rceil> = \<lceil>(of_int j :: rat) / 15\<rceil>"
proof (cases "15 dvd j")
  case True
  with assms(2) have "v = of_int j / 15" by blast
  then show ?thesis by (simp only:)
next
  case False
  define k where "k = j div 15"
  define r where "r = j mod 15"
  from False have r: "1 \<le> r" "r \<le> 14"
    using pos_mod_sign [of 15 j] pos_mod_bound [of 15 j] by (auto simp: r_def dvd_eq_mod_eq_0)
  have j: "j = 15 * k + r" by (simp add: k_def r_def)
  have q: "(of_int j :: rat) / 15 = of_int k + of_int r / 15" by (simp add: j)
  from r have r': "(1 :: rat) / 15 \<le> of_int r / 15" "of_int r / 15 \<le> (14 :: rat) / 15"
    by simp_all
  have c1: "\<lceil>(of_int j :: rat) / 15\<rceil> = k + 1"
    by (rule ceiling_unique) (use q r' in linarith)+
  from assms(1) have "of_int j / 15 - 1 / 64 \<le> v" "v \<le> of_int j / 15 + 1 / 64"
    by linarith+
  then have c2: "\<lceil>v\<rceil> = k + 1"
    by (intro ceiling_unique) (use q r' in linarith)+
  from c1 c2 show ?thesis by simp
qed

lemma pixels_to_omit_40_exact:
  assumes "0 \<le> sd" "sd < 2 ^ 48"
  shows "pixels_to_omit 40 sd = Inr (2 * \<lceil>(of_int sd :: rat) / (375 / 100)\<rceil>)"
proof (cases "sd = 0")
  case True
  then show ?thesis
    by (simp add: pixels_to_omit_def float_of_int_def round64_def fdiv_def ceil_times_2_Fin)
next
  case False
  with assms(1) have pos: "0 < sd" by simp
  have sdr: "(of_int sd :: rat) < 2 ^ 48"
  proof -
    from assms(2) have "(of_int sd :: rat) < of_int (2 ^ 48)" by (simp only: of_int_less_iff)
    then show ?thesis by simp
  qed
  from pos have sd0: "(0 :: rat) < of_int sd" by simp
  from round64_near [OF sd0 sdr] have r1: "round64 (of_int sd) = Fin (of_int sd)" by auto
  then have f1: "float_of_int sd = Inr (Fin (of_int sd))" by (simp add: float_of_int_def)
  let ?q = "(of_int sd :: rat) / (375 / 100)"
  have qj: "?q = of_int (4 * sd) / 15" by simp
  from sd0 have q0: "0 < ?q" by simp
  from sd0 sdr have q48: "?q < 2 ^ 48" by simp
  from round64_near [OF q0 q48] obtain v where
    v: "round64 ?q = Fin v" and err: "\<bar>v - ?q\<bar> \<le> 1 / 64"
    and ex: "\<forall>z. ?q = of_int z \<longrightarrow> v = ?q" by blast
  have dv: "15 dvd 4 * sd \<longrightarrow> v = of_int (4 * sd) / 15"
  proof
    assume "15 dvd 4 * sd"
    then obtain z where z: "4 * sd = 15 * z" by (auto elim: dvdE)
    have "?q = of_int (15 * z) / 15" by (simp only: qj z)
    then have "?q = of_int z" by simp
    with ex have "v = ?q" by blast
    then show "v = of_int (4 * sd) / 15" by (simp only: qj)
  qed
  from err have err': "\<bar>v - of_int (4 * sd) / 15\<bar> \<le> 1 / 64" by (simp only: qj)
  from ceiling_near_fifteenths [OF err' dv] have c: "\<lceil>v\<rceil> = \<lceil>?q\<rceil>" by (simp only: qj)
  have "fdiv (Fin (of_int sd)) (Fin (375 / 100)) = Inr (Fin v)"
    using v by (simp add: fdiv_def)
  with f1 c show ?thesis by (simp add: pixels_to_omit_def ceil_times_2_Fin)
qed

lemma round64_rel:
  assumes "1 / 2 ^ 20 \<le> q" "q < 2 ^ 48"
  shows "\<exists>v. round64 q = Fin v \<and> \<bar>v - q\<bar> \<le> q / 2 ^ 53"
proof -
  have "(0 :: rat) < 1 / 2 ^ 20" by simp
  with assms(1) have q0: "0 < q" by linarith
  define P where "P = pow_int 2 (max (floor_log2 q - 52) (- 1074))"
  define m where "m = round_half_even (q / P)"
  have Ppos: "0 < P" unfolding P_def by (rule pow_int_pos)
  have PL: "P \<le> q / 2 ^ 52"
  proof (cases "- 1074 \<le> floor_log2 q - 52")
    case True
    then have "max (floor_log2 q - 52) (- 1074) = floor_log2 q - 52" by (rule max_absorb1)
    then have "P = 2 powi (floor_log2 q - 52)" by (simp only: P_def pow_int_powi)
    also have "\<dots> = 2 powi (floor_log2 q) / 2 powi 52" by (simp add: power_int_diff)
    also have "\<dots> = pow_int 2 (floor_log2 q) / 2 ^ 52" by (simp add: pow_int_powi)
    also have "\<dots> \<le> q / 2 ^ 52"
      using floor_log2_le [OF q0] by (intro divide_right_mono) simp_all
    finally show ?thesis .
  next
    case False
    then have "max (floor_log2 q - 52) (- 1074) = - 1074" by (intro max_absorb2) linarith
    then have "P = pow_int 2 (- 1074)" by (simp only: P_def)
    also have "\<dots> = 1 / 2 ^ 1074" by (simp add: pow_int_def)
    also have "\<dots> \<le> (1 / 2 ^ 20) / 2 ^ 52" by simp
    also have "\<dots> \<le> q / 2 ^ 52"
      using assms(1) by (intro divide_right_mono) simp_all
    finally show ?thesis .
  qed
  have "\<bar>of_int m - q / P\<bar> \<le> 1 / 2" unfolding m_def by (rule round_half_even_error)
  then have "\<bar>of_int m - q / P\<bar> * P \<le> 1 / 2 * P"
    using Ppos by (intro mult_right_mono) simp_all
  moreover have "\<bar>of_int m - q / P\<bar> * P = \<bar>of_int m * P - q\<bar>"
  proof -
    have "of_int m * P - q = (of_int m - q / P) * P" using Ppos by (simp add: field_simps)
    with Ppos show ?thesis by (simp only: abs_mult abs_of_pos)
  qed
  ultimately have "\<bar>of_int m * P - q\<bar> \<le> 1 / 2 * P" by simp
  with PL have err: "\<bar>of_int m * P - q\<bar> \<le> q / 2 ^ 53" by simp
  from q0 have "q / 2 ^ 53 \<le> q" by (simp add: field_simps)
  with err assms(2) have "of_int m * P < 2 ^ 48 + 2 ^ 48" by linarith
  also have "\<dots> < (2 :: rat) ^ 1024" by simp
  finally have small: "\<not> 2 ^ 1024 \<le> of_int m * P" by simp
  from q0 small have "round64 q = Fin (of_int m * P)"
    by (simp add: round64_def Let_def overflow_threshold_eq P_def m_def)
  with err show ?thesis by blast
qed

lemma ceiling_near_150ths:
  fixes j :: int and v :: rat
  assumes "\<bar>v - of_int j / 150\<bar> \<le> 1 / 256"
  shows "(\<not> 150 dvd j \<longrightarrow> \<lceil>v\<rceil> = \<lceil>(of_int j :: rat) / 150\<rceil>)
       \<and> (\<lceil>v\<rceil> = \<lceil>(of_int j :: rat) / 150\<rceil> \<or> \<lceil>v\<rceil> = \<lceil>(of_int j :: rat) / 150\<rceil> + 1)"
proof (cases "150 dvd j")
  case True
  then obtain k where j: "j = 150 * k" by (auto elim: dvdE)
  have q: "(of_int j :: rat) / 150 = of_int k" by (simp add: j)
  from assms have b: "of_int k - 1 / 256 \<le> v" "v \<le> of_int k + 1 / 256"
    unfolding q by linarith+
  have "\<lceil>v\<rceil> = k \<or> \<lceil>v\<rceil> = k + 1"
  proof (cases "v \<le> of_int k")
    case True
    with b have "\<lceil>v\<rceil> = k" by (intro ceiling_unique) linarith+
    then show ?thesis by simp
  next
    case False
    with b have "\<lceil>v\<rceil> = k + 1" by (intro ceiling_unique) (simp, linarith)
    then show ?thesis by simp
  qed
  with True show ?thesis unfolding q by simp
next
  case False
  define k where "k = j div 150"
  define r where "r = j mod 150"
  from False have r: "1 \<le> r" "r \<le> 149"
    using pos_mod_sign [of 150 j] pos_mod_bound [of 150 j] by (auto simp: r_def dvd_eq_mod_eq_0)
  have j: "j = 150 * k + r" by (simp add: k_def r_def)
  have q: "(of_int j :: rat) / 150 = of_int k + of_int r / 150" by (simp add: j)
  from r have r': "(1 :: rat) / 150 \<le> of_int r / 150" "of_int r / 150 \<le> (149 :: rat) / 150"
    by simp_all
  have c1: "\<lceil>(of_int j :: rat) / 150\<rceil> = k + 1"
    by (rule ceiling_unique) (use q r' in linarith)+
  from assms have "of_int j / 150 - 1 / 256 \<le> v" "v \<le> of_int j / 150 + 1 / 256"
    by linarith+
  then have c2: "\<lceil>v\<rceil> = k + 1"
    by (intro ceiling_unique) (use q r' in linarith)+
  from c1 c2 show ?thesis by simp
qed

lemma of_int_below_pow:
  assumes "i < 2 ^ n"
  shows "(of_int i :: rat) < 2 ^ n"
proof -
  from assms have "(of_int i :: rat) < of_int (2 ^ n)" by (simp only: of_int_less_iff)
  then show ?thesis by simp
qed

lemma round64_of_int:
  assumes "0 \<le> i" "i < 2 ^ 48"
  shows "round64 (of_int i) = Fin (of_int i)"
proof (cases "i = 0")
  case True
  then show ?thesis by (simp add: round64_def)
next
  case False
  with assms(1) have "(0 :: rat) < of_int i" by simp
  from round64_near [OF this of_int_below_pow [OF assms(2)]] show ?thesis by auto
qed

section \<open>Facts about the array operations\<close>

lemma length_chunks: "length (chunks r c xs) = r"
  by (simp add: chunks_def)

lemma nth_chunks: "i < r \<Longrightarrow> chunks r c xs ! i = take c (drop (i * c) xs)"
  by (simp add: chunks_def)

lemma length_nth_chunks:
  assumes "i < r" "r * c \<le> length xs"
  shows "length (chunks r c xs ! i) = c"
proof -
  from assms(1) have "Suc i \<le> r" by simp
  then have "Suc i * c \<le> r * c" by (rule mult_le_mono1)
  with assms(2) have "i * c + c \<le> length xs" by simp
  with assms(1) show ?thesis by (simp add: nth_chunks)
qed

lemma nth_nth_chunks:
  assumes "i < r" "j < c"  "r * c \<le> length xs"
  shows "chunks r c xs ! i ! j = xs ! (i * c + j)"
proof -
  from assms(1) have "Suc i \<le> r" by simp
  then have "Suc i * c \<le> r * c" by (rule mult_le_mono1)
  with assms(3) have "i * c + c \<le> length xs" by simp
  with assms show ?thesis by (simp add: nth_chunks)
qed

lemma reshape_Inr:
  assumes "reshape dt xs r c = Inr a"
  shows "\<exists>r' c'. a = Arr2 dt r' c' (chunks r' c' xs) \<and> r' * c' = length xs
           \<and> (0 \<le> r \<longrightarrow> int r' = r) \<and> (0 \<le> c \<longrightarrow> int c' = c)"
proof -
  let ?n = "int (length xs)"
  consider (rneg) "r < 0" "0 \<le> c" | (cneg) "0 \<le> r" "c < 0" | (both) "0 \<le> r" "0 \<le> c" | (neg) "r < 0" "c < 0"
    by linarith
  then show ?thesis
  proof cases
    case rneg
    with assms have c: "c \<noteq> 0" "?n mod c = 0" and a: "a = Arr2 dt (nat (?n div c)) (nat c) (chunks (nat (?n div c)) (nat c) xs)"
      by (auto simp: reshape_def Let_def split: if_splits)
    from rneg c have "0 < c" by simp
    then have "0 \<le> ?n div c" by (simp add: pos_imp_zdiv_nonneg_iff)
    moreover from c have "?n div c * c = ?n" by (simp add: mod_0_imp_dvd)
    ultimately have "int (nat (?n div c) * nat c) = ?n" using \<open>0 < c\<close> by simp
    then have "nat (?n div c) * nat c = length xs" by linarith
    with a rneg \<open>0 < c\<close> show ?thesis by auto
  next
    case cneg
    with assms have c: "r \<noteq> 0" "?n mod r = 0" and a: "a = Arr2 dt (nat r) (nat (?n div r)) (chunks (nat r) (nat (?n div r)) xs)"
      by (auto simp: reshape_def Let_def split: if_splits)
    from cneg c have "0 < r" by simp
    then have "0 \<le> ?n div r" by (simp add: pos_imp_zdiv_nonneg_iff)
    moreover from c have "r * (?n div r) = ?n" by (simp add: mod_0_imp_dvd)
    ultimately have "int (nat r * nat (?n div r)) = ?n" using \<open>0 < r\<close> by simp
    then have "nat r * nat (?n div r) = length xs" by linarith
    with a cneg \<open>0 < r\<close> show ?thesis by auto
  next
    case both
    with assms have c: "r * c = ?n" and a: "a = Arr2 dt (nat r) (nat c) (chunks (nat r) (nat c) xs)"
      by (auto simp: reshape_def Let_def split: if_splits)
    from both c have "int (nat r * nat c) = ?n" by simp
    then have "nat r * nat c = length xs" by linarith
    with a both show ?thesis by auto
  next
    case neg
    with assms show ?thesis by (auto simp: reshape_def Let_def split: if_splits)
  qed
qed

lemma reshape_exact:
  assumes "0 \<le> r" "0 \<le> c" "r \<le> npy_intp_max" "c \<le> npy_intp_max"
  shows "reshape dt xs r c =
           (if r * c \<le> npy_intp_max \<and> r * c = int (length xs)
            then Inr (Arr2 dt (nat r) (nat c) (chunks (nat r) (nat c) xs)) else Inl ValueError)"
  using assms by (auto simp: reshape_def Let_def npy_intp_max_def)

lemma uint_of_char: "uint (of_char c :: 8 word) = int (of_char c)"
  by (cases c) (simp add: )

lemma length_le16: "length (le16 b) = length b div 2"
  by (induction b rule: le16.induct) simp_all

lemma and_4095_range: "0 \<le> uint (w :: 16 word) AND 4095 \<and> uint w AND 4095 \<le> 4095"
proof -
  have "0 \<le> uint w" by simp
  then show ?thesis by simp
qed

lemma below_intp_max: "(x::int) < 10 ^ 10 \<Longrightarrow> x \<le> npy_intp_max" by (simp add: npy_intp_max_def)

lemma div_twice_le: fixes N :: int assumes "0 < N" "0 \<le> i" shows "i div (2 * N) \<le> i"
proof -
  from assms have "i div (2 * N) \<le> i div 1" by (intro zdiv_mono2) simp_all
  then show ?thesis by simp
qed

lemma odd_mod_twice: fixes N :: int assumes "0 < N" "odd i" shows "i mod (2 * N) \<noteq> 0"
proof
  assume "i mod (2 * N) = 0"
  then have "2 * N dvd i" by (simp add: mod_0_imp_dvd)
  then have "2 dvd i" by (rule dvd_mult_left)
  with assms(2) show False by simp
qed

lemma floor_exact_iff:
  fixes ibc N :: int
  assumes "0 < N" "even ibc"
  shows "(ibc div (2 * N)) * N = ibc div 2 \<longleftrightarrow> ibc mod (2 * N) = 0"
proof -
  from assms(2) obtain h where h: "ibc = 2 * h" by (rule evenE)
  have d: "(2 * h) div (2 * N) = h div N" by (rule div_mult_mult1) simp
  have m: "(2 * h) mod (2 * N) = 2 * (h mod N)" by (rule mod_mult_mult1)
  have e: "(2 * h) div 2 = h" by simp
  have "h div N * N + h mod N = h" by (rule div_mult_mod_eq)
  then have "(h div N) * N = h \<longleftrightarrow> h mod N = 0" by linarith
  then show ?thesis unfolding h d m e by simp
qed

section \<open>Facts about the decoder\<close>

lemma get_logs:
  "snd (get s k) = (if header s = [] then [Warning_header_not_initialized]
                    else if map_of (header s) k = None then [Error_attribute_not_found k]
                    else [])"
  by (simp add: get_def split: option.splits)

lemma get_value_header: "fst (get s k) \<noteq> VNone \<Longrightarrow> header s \<noteq> []"
  by (auto simp: get_def)

lemma get_no_log: "fst (get s k) \<noteq> VNone \<Longrightarrow> snd (get s k) = []"
  by (auto simp: get_def split: option.splits if_splits)

lemma get_converts_no_log: "py_int (fst (get s k)) = Inr n \<Longrightarrow> snd (get s k) = []"
  by (rule get_no_log) (auto simp: py_int_def)

lemma get_process_image [simp]: "get (fst (snd (process_image s region))) k = get s k"
  by (simp add: process_image_def get_def Let_def split: prod.splits)

lemma get_image_size_eq:
  "get_image_size s region =
     (case int_of_str (take (if py_eq_int (fst (get s ''DABIT'')) 12 then 10 else 6) region) of
        Inr n \<Rightarrow> (n, snd (get s ''DABIT''))
      | Inl e \<Rightarrow> (0, snd (get s ''DABIT'') @ [Critical_decoding_image_size]))"
  by (simp add: get_image_size_def Let_def split: prod.splits sum.splits)

lemma process_image_fields:
  "image_size (fst (snd (process_image s region))) = fst (get_image_size s region)"
  "image_data (fst (snd (process_image s region))) = Some (drop 10 region)"
  "fst (process_image s region) = drop 10 region"
  "snd (snd (process_image s region)) = snd (get_image_size s region)"
  by (simp_all add: process_image_def Let_def split: prod.splits)

lemma get_image_array_created:
  assumes "get_image_array s = (a, [Info_created_image_array])"
  shows "get_image_array_try s = (Inr a, [Info_created_image_array])"
proof (cases "get_image_array_try s")
  case (Pair res logs)
  show ?thesis
  proof (cases res)
    case (Inl e)
    with Pair assms have "logs @ [Critical_creating_image_array] = [Info_created_image_array]"
      by (simp add: get_image_array_def)
    then show ?thesis by (cases logs) auto
  next
    case (Inr a')
    with Pair assms show ?thesis by (simp add: get_image_array_def)
  qed
qed

lemma try_FIFO_error:
  assumes "py_int (fst (get s ''FIFO'')) = Inl e"
  shows "get_image_array_try s = (Inl e, snd (get s ''FIFO''))"
  using assms by (simp add: get_image_array_try_def case_prod_beta)

lemma try_DABIT_error:
  assumes "py_int (fst (get s ''FIFO'')) = Inr n" "py_int (fst (get s ''DABIT'')) = Inl e"
  shows "get_image_array_try s = (Inl e, snd (get s ''DABIT''))"
  using assms get_converts_no_log [OF assms(1)]
  by (simp add: get_image_array_try_def case_prod_beta)

lemma try_unsupported:
  assumes "py_int (fst (get s ''FIFO'')) = Inr n" "py_int (fst (get s ''DABIT'')) = Inr d"
    "d \<noteq> 12" "d \<noteq> 8"
  shows "get_image_array_try s = (Inr empty_array, [Error_unsupported_DABIT d])"
  using assms get_converts_no_log [OF assms(1)] get_converts_no_log [OF assms(2)]
  by (simp add: get_image_array_try_def case_prod_beta)

lemma try_8:
  assumes "py_int (fst (get s ''FIFO'')) = Inr n" "py_int (fst (get s ''DABIT'')) = Inr 8"
  shows "get_image_array_try s =
     (if n = 0 then (Inl ZeroDivisionError, [])
      else case frombuffer (image_data s) UInt8 of
             Inl e \<Rightarrow> (Inl e, [])
           | Inr xs \<Rightarrow>
               (case reshape UInt8 xs (image_size s div n) n of
                  Inl e \<Rightarrow> (Inl e, [])
                | Inr reshaped \<Rightarrow>
                    (case set_column0 reshaped of
                       Inl e \<Rightarrow> (Inl e, [])
                     | Inr a \<Rightarrow> (Inr a, [Info_created_image_array]))))"
  using assms get_converts_no_log [OF assms(1)] get_converts_no_log [OF assms(2)]
  by (auto simp: get_image_array_try_def Let_def case_prod_beta split: sum.splits)

lemma try_12:
  assumes "py_int (fst (get s ''FIFO'')) = Inr n" "py_int (fst (get s ''DABIT'')) = Inr 12"
  shows "get_image_array_try s =
     (if n = 0 then (Inl ZeroDivisionError, [])
      else case frombuffer (image_data s) UInt16 of
             Inl e \<Rightarrow> (Inl e, [])
           | Inr xs \<Rightarrow>
               (case reshape UInt16 xs (image_size s div (2 * n)) n of
                  Inl e \<Rightarrow> (Inl e, [])
                | Inr reshaped \<Rightarrow>
                    (Inr (array_and reshaped 0x0FFF), [Info_created_image_array])))"
  using assms get_converts_no_log [OF assms(1)] get_converts_no_log [OF assms(2)]
  by (auto simp: get_image_array_try_def Let_def case_prod_beta split: sum.splits)

lemma get_image_array_error:
  "get_image_array_try s = (Inl e, logs)
   \<Longrightarrow> get_image_array s = (empty_array, logs @ [Critical_creating_image_array])"
  by (simp add: get_image_array_def)

lemma get_image_array_ok:
  "get_image_array_try s = (Inr a, logs) \<Longrightarrow> get_image_array s = (a, logs)"
  by (simp add: get_image_array_def)

lemma get_image_array_fst:
  "fst (get_image_array s)
     = (case fst (get_image_array_try s) of Inl e \<Rightarrow> empty_array | Inr a \<Rightarrow> a)"
  by (simp add: get_image_array_def split: prod.splits sum.splits)

lemma array_and_rows:
  "array_and (Arr2 dt r c rows) m = Arr2 dt r c (map (map (\<lambda>x. x AND m)) rows)"
  by (simp add: array_and_def)


lemma frombuffer_nonempty:
  assumes "frombuffer (Some d) dt = Inr xs" "d \<noteq> []"
  shows "xs \<noteq> []"
proof (cases dt)
  case UInt8
  with assms show ?thesis by (auto simp: frombuffer_def)
next
  case UInt16
  with assms have ev: "even (length d)" and xs: "xs = map uint (le16 d)"
    by (auto simp: frombuffer_def split: if_splits)
  from ev obtain k where k: "length d = 2 * k" by (rule evenE)
  from assms(2) have "length d \<noteq> 0" by simp
  with k have "k \<noteq> 0" by simp
  with k have "length (le16 d) \<noteq> 0" by (simp add: length_le16)
  with xs show ?thesis by auto
next
  case Int64
  with assms show ?thesis by (simp add: frombuffer_def)
next
  case Float64
  with assms show ?thesis by (simp add: frombuffer_def)
qed

lemma reshape_zero_rays:
  assumes "xs \<noteq> []"
  shows "\<exists>e. reshape dt xs 0 c = Inl e"
proof (cases "reshape dt xs 0 c")
  case (Inl e)
  then show ?thesis by simp
next
  case (Inr a)
  from reshape_Inr [OF Inr] obtain r' c' where "r' * c' = length xs" "int r' = 0" by auto
  with assms show ?thesis by simp
qed

lemma zero_size_decodes_empty:
  assumes "image_size s = 0" "image_data s = Some d" "d \<noteq> []"
  shows "fst (get_image_array s) = empty_array"
proof (cases "fst (get_image_array_try s)")
  case (Inl e)
  then show ?thesis by (simp add: get_image_array_fst)
next
  case (Inr res)
  then obtain n where fifo: "py_int (fst (get s ''FIFO'')) = Inr n"
    by (cases "py_int (fst (get s ''FIFO''))") (auto simp: try_FIFO_error)
  from Inr fifo obtain dv where dabit: "py_int (fst (get s ''DABIT'')) = Inr dv"
    by (cases "py_int (fst (get s ''DABIT''))") (auto simp: try_DABIT_error)
  consider (u) "dv \<noteq> 12" "dv \<noteq> 8" | (b12) "dv = 12" | (b8) "dv = 8" by blast
  then have "res = empty_array"
  proof cases
    case u
    from try_unsupported [OF fifo dabit u] Inr show ?thesis by simp
  next
    case b12
    note t = Inr [unfolded try_12 [OF fifo dabit [unfolded b12]] assms(1) assms(2)]
    from t have n0: "n \<noteq> 0" by (auto split: if_splits)
    from t n0 obtain xs where fb: "frombuffer (Some d) UInt16 = Inr xs" by (auto split: sum.splits)
    from frombuffer_nonempty [OF fb assms(3)] reshape_zero_rays
    obtain e where "reshape UInt16 xs 0 n = Inl e" by blast
    with t n0 fb show ?thesis by simp
  next
    case b8
    note t = Inr [unfolded try_8 [OF fifo dabit [unfolded b8]] assms(1) assms(2)]
    from t have n0: "n \<noteq> 0" by (auto split: if_splits)
    from t n0 obtain xs where fb: "frombuffer (Some d) UInt8 = Inr xs" by (auto split: sum.splits)
    from frombuffer_nonempty [OF fb assms(3)] reshape_zero_rays
    obtain e where "reshape UInt8 xs 0 n = Inl e" by blast
    with t n0 fb show ?thesis by simp
  qed
  with Inr show ?thesis by (simp add: get_image_array_fst)
qed

section \<open>Facts about rendering\<close>

lemma pixelsToOmit_spec_other:
  assumes "sf \<noteq> 40" "0 < sf"
  shows "pixelsToOmit_spec (of_int sf) (of_int sd) = \<lceil>(of_int (sd * sf) :: rat) / 150\<rceil> * 2"
proof -
  from assms(1) have "(of_int sf :: rat) \<noteq> of_int 40" by (simp only: of_int_eq_iff) simp
  then have ne: "(of_int sf :: rat) \<noteq> 40" by simp
  from assms(2) have "(of_int sf :: rat) \<noteq> 0" by simp
  then have "(of_int sd :: rat) / (300000000 / (2 * of_int sf * 1000000))
               = of_int (sd * sf) / 150"
    by (simp add: field_simps)
  with ne show ?thesis by (simp only: pixelsToOmit_spec_def metersPerPixel_spec_def if_False)
qed

lemma pixels_to_omit_other:
  assumes "sf \<noteq> 40" "0 < sf" "sf < 2 ^ 20" "0 \<le> sd" "sd < 2 ^ 20"
  shows "\<exists>k. pixels_to_omit sf sd = Inr k \<and> 0 \<le> k \<and> k \<le> 2 ^ 41
           \<and> (\<not> 150 dvd sd * sf \<longrightarrow> k = pixelsToOmit_spec (of_int sf) (of_int sd))
           \<and> (k = pixelsToOmit_spec (of_int sf) (of_int sd)
                \<or> k = pixelsToOmit_spec (of_int sf) (of_int sd) + 2)"
proof -
  let ?E = "pixelsToOmit_spec (of_int sf) (of_int sd)"
  note E = pixelsToOmit_spec_other [OF assms(1) assms(2), of sd]
  define t :: rat where "t = 150 / of_int sf"
  from assms(2) have sfr: "(1 :: rat) \<le> of_int sf" by simp
  from of_int_below_pow [OF assms(3)] have sfu: "(of_int sf :: rat) < 2 ^ 20" .
  from of_int_below_pow [OF assms(5)] have sdu: "(of_int sd :: rat) < 2 ^ 20" .
  from assms(4) have sd0: "(0 :: rat) \<le> of_int sd" by simp
  have "0 \<le> 2 * sf" "2 * sf < 2 ^ 48" using assms(2) assms(3) by simp_all
  from round64_of_int [OF this] have f2: "float_of_int (2 * sf) = Inr (Fin (of_int (2 * sf)))"
    by (simp add: float_of_int_def)
  have "0 \<le> 2 * sf * 1000000" "2 * sf * 1000000 < 2 ^ 48" using assms(2) assms(3) by simp_all
  from round64_of_int [OF this]
  have mul: "fmul (Fin (of_int (2 * sf))) (Fin 1000000) = Fin (of_int (2 * sf * 1000000))"
    by (simp add: fmul_def)
  from assms(2) have nz: "Fin (of_int (2 * sf * 1000000) :: rat) \<noteq> Fin 0" by simp
  from sfr have tq: "300000000 / (of_int (2 * sf * 1000000) :: rat) = t"
    by (simp add: t_def field_simps)
  from sfr have tpos: "0 < t" by (simp add: t_def)
  from sfr have tu: "t \<le> 150" by (simp add: t_def field_simps)
  from sfr sfu have tl: "1 / 2 ^ 20 \<le> t" by (simp add: t_def field_simps)
  from tu have "t < 2 ^ 48" by simp
  from round64_rel [OF tl this] obtain m where
    m: "round64 t = Fin m" and merr: "\<bar>m - t\<bar> \<le> t / 2 ^ 53" by blast
  from nz tq m have mpp: "fdiv (Fin 300000000) (Fin (of_int (2 * sf * 1000000))) = Inr (Fin m)"
    by (simp add: fdiv_def)
  from merr have mb: "t - t / 2 ^ 53 \<le> m" "m \<le> t + t / 2 ^ 53" by linarith+
  from tpos have tsmall: "t / 2 ^ 53 \<le> t / 2" by simp
  from tpos tu have "t / 2 ^ 53 \<le> 1" by simp
  with mb tu have mu: "m \<le> 151" by linarith
  from mb tsmall have ml: "t / 2 \<le> m" by linarith
  from ml tpos have mpos: "0 < m" by linarith
  from round64_of_int [OF assms(4)] assms(5)
  have sdr: "float_of_int sd = Inr (Fin (of_int sd))" by (simp add: float_of_int_def)
  from mpos have dv: "fdiv (Fin (of_int sd)) (Fin m) = Inr (round64 (of_int sd / m))"
    by (simp add: fdiv_def)
  have code: "pixels_to_omit sf sd
                = (case round64 (of_int sd / m) of Fin v \<Rightarrow> Inr (\<lceil>v\<rceil> * 2)
                   | x \<Rightarrow> ceil_times_2 x)"
    using assms(1) f2 mul mpp sdr dv
    by (simp add: pixels_to_omit_def Let_def ceil_times_2_Fin split: pyfloat.splits)
  show ?thesis
  proof (cases "sd = 0")
    case True
    then have "round64 (of_int sd / m) = Fin 0" by (simp add: round64_def)
    then have "pixels_to_omit sf sd = Inr 0" by (simp only: code) simp
    moreover from True have "?E = 0" unfolding E by simp
    ultimately show ?thesis by simp
  next
    case False
    with assms(4) have sd1: "(1 :: rat) \<le> of_int sd" by simp
    define q where "q = of_int sd / m"
    define x :: rat where "x = of_int (sd * sf) / 150"
    have xt: "x = of_int sd / t" using sfr by (simp add: x_def t_def)
    from sd1 mpos have qpos: "0 < q" by (simp add: q_def)
    have "of_int sd / m \<le> of_int sd / (t / 2)"
      using ml tpos sd0 by (intro divide_left_mono) simp_all
    also have "\<dots> = 2 * x" by (simp add: xt)
    finally have qx: "q \<le> 2 * x" by (simp only: q_def)
    have "of_int (sd * sf) = (of_int sd :: rat) * of_int sf" by simp
    also have "\<dots> \<le> 2 ^ 20 * 2 ^ 20"
      using sdu sfu sd0 sfr by (intro mult_mono) simp_all
    finally have "x \<le> 2 ^ 40 / 150" by (simp add: x_def)
    with qx have qu: "q \<le> 2 ^ 34" by simp
    then have q48: "q < 2 ^ 48" by simp
    have "1 / 151 \<le> 1 / m" using mu mpos by (intro divide_left_mono) simp_all
    also have "\<dots> \<le> of_int sd / m" using sd1 mpos by (intro divide_right_mono) simp_all
    finally have "1 / 151 \<le> q" by (simp only: q_def)
    then have ql: "1 / 2 ^ 20 \<le> q" by simp
    from round64_rel [OF ql q48] obtain v where
      v: "round64 q = Fin v" and verr: "\<bar>v - q\<bar> \<le> q / 2 ^ 53" by blast
    have "q - x = of_int sd * (t - m) / (m * t)"
      using mpos tpos by (simp add: q_def xt field_simps)
    then have "\<bar>q - x\<bar> = of_int sd * \<bar>t - m\<bar> / (m * t)"
      using mpos tpos sd0 by (simp add: abs_mult)
    also have "\<dots> \<le> of_int sd * (t / 2 ^ 53) / (m * t)"
      using merr mpos tpos sd0
      by (intro divide_right_mono mult_left_mono) (simp_all add: abs_minus_commute)
    also have "\<dots> = q / 2 ^ 53" using mpos tpos by (simp add: q_def)
    finally have "\<bar>q - x\<bar> \<le> q / 2 ^ 53" .
    with verr have "\<bar>v - x\<bar> \<le> 2 * (q / 2 ^ 53)" by linarith
    also have "\<dots> \<le> 2 * (2 ^ 34 / 2 ^ 53)"
      using qu by (intro mult_left_mono divide_right_mono) simp_all
    also have "\<dots> \<le> 1 / 256" by simp
    finally have near: "\<bar>v - of_int (sd * sf) / 150\<bar> \<le> 1 / 256" by (simp only: x_def)
    note c = ceiling_near_150ths [OF near]
    from v have k: "pixels_to_omit sf sd = Inr (\<lceil>v\<rceil> * 2)" by (simp add: code q_def)
    from verr have vb: "q - q / 2 ^ 53 \<le> v" "v \<le> q + q / 2 ^ 53" by linarith+
    from qpos have qsmall: "q / 2 ^ 53 \<le> q" by (simp add: field_simps)
    with vb have "0 \<le> v" by linarith
    then have k0: "0 \<le> \<lceil>v\<rceil> * 2" by simp
    from vb qsmall qu have "v \<le> 2 * 2 ^ 34" by linarith
    then have "v \<le> 2 ^ 35" by simp
    then have "\<lceil>v\<rceil> \<le> 2 ^ 35" by (simp add: ceiling_le_iff)
    then have ku: "\<lceil>v\<rceil> * 2 \<le> 2 ^ 41" by simp
    from c have "(\<not> 150 dvd sd * sf \<longrightarrow> \<lceil>v\<rceil> * 2 = ?E)
           \<and> (\<lceil>v\<rceil> * 2 = ?E \<or> \<lceil>v\<rceil> * 2 = ?E + 2)"
      unfolding E by auto
    with k k0 ku show ?thesis by blast
  qed
qed

lemma pixels_to_omit_width:
  assumes "0 < sf" "sf < 2 ^ 20" "0 \<le> sd" "sd < 2 ^ 20"
  shows "\<exists>k. pixels_to_omit sf sd = Inr k \<and> 0 \<le> k \<and> k \<le> 2 ^ 41
           \<and> (sf = 40 \<or> \<not> 150 dvd sd * sf \<longrightarrow> k = pixelsToOmit_spec (of_int sf) (of_int sd))
           \<and> (k = pixelsToOmit_spec (of_int sf) (of_int sd)
                \<or> k = pixelsToOmit_spec (of_int sf) (of_int sd) + 2)"
proof (cases "sf = 40")
  case True
  let ?c = "\<lceil>(of_int sd :: rat) / (375 / 100)\<rceil>"
  from assms(4) have "sd < 2 ^ 48" by simp
  from pixels_to_omit_40_exact [OF assms(3) this]
  have k: "pixels_to_omit sf sd = Inr (2 * ?c)" by (simp only: True)
  have E: "pixelsToOmit_spec (of_int sf) (of_int sd) = 2 * ?c"
    by (simp add: True pixelsToOmit_spec_def)
  from assms(3) have "(0 :: rat) \<le> of_int sd / (375 / 100)" by simp
  then have "\<lceil>0 :: rat\<rceil> \<le> ?c" by (rule ceiling_mono)
  then have c0: "0 \<le> ?c" by simp
  from assms(3) have "(of_int sd :: rat) / (375 / 100) \<le> of_int sd" by simp
  then have "?c \<le> sd" by (simp only: ceiling_le_iff)
  with assms(4) have "2 * ?c \<le> 2 ^ 41" by simp
  with k E c0 show ?thesis by simp
next
  case False
  from pixels_to_omit_other [OF False assms] False show ?thesis by blast
qed

lemma get_image_array_update [simp]: "get (s\<lparr>image_array := a\<rparr>) k = get s k"
  by (simp add: get_def)

lemma prepend_columns_Arr2:
  assumes "0 \<le> k" "k \<le> npy_intp_max"
  shows "prepend_columns k fill (Arr2 dt r c rows) = Inr (widened k fill (Arr2 dt r c rows))"
  using assms by (simp add: prepend_columns_def widened_def)

lemma prepend_columns_Inr:
  assumes "prepend_columns k fill a = Inr b"
  shows "0 \<le> k \<and> k \<le> npy_intp_max \<and> (\<exists>dt r c rows. a = Arr2 dt r c rows) \<and> b = widened k fill a"
  using assms by (auto simp: prepend_columns_def widened_def split: if_splits ndarray.splits)

lemma render_stores:
  assumes "py_int (fst (get s ''SFREQ'')) = Inr sf" "py_int (fst (get s ''SDRNG'')) = Inr sd"
    and "pixels_to_omit sf sd = Inr k" "0 \<le> k" "k \<le> npy_intp_max"
    and "image_array s = Some (Arr2 dt r c rows)"
  shows "fst (snd (render orient td s))
           = s\<lparr>image_array := Some (widened k (highest_brightness s) (Arr2 dt r c rows))\<rparr>"
  using assms
  by (simp add: render_def Let_def prepend_columns_Arr2 highest_brightness_def case_prod_beta
           split: sum.splits)

lemma render_raises_early:
  assumes "py_int (fst (get s ''SFREQ'')) = Inr sf" "py_int (fst (get s ''SDRNG'')) = Inr sd"
    and "pixels_to_omit sf sd = Inl e"
  shows "fst (render orient td s) = Inl e \<and> fst (snd (render orient td s)) = s"
  using assms by (simp add: render_def case_prod_beta)

lemma render_Inr:
  assumes "render orient td s = (Inr f, s', logs)"
  shows "\<exists>sf sd k dt r c rows.
           py_int (fst (get s ''SFREQ'')) = Inr sf \<and> py_int (fst (get s ''SDRNG'')) = Inr sd
         \<and> pixels_to_omit sf sd = Inr k \<and> 0 \<le> k \<and> k \<le> npy_intp_max
         \<and> image_array s = Some (Arr2 dt r c rows)
         \<and> mesh f = widened k (highest_brightness s) (Arr2 dt r c rows)
         \<and> s' = s\<lparr>image_array := Some (mesh f)\<rparr>"
proof -
  from assms obtain sf where sf: "py_int (fst (get s ''SFREQ'')) = Inr sf"
    by (cases "py_int (fst (get s ''SFREQ''))") (auto simp: render_def case_prod_beta)
  from assms sf obtain sd where sd: "py_int (fst (get s ''SDRNG'')) = Inr sd"
    by (cases "py_int (fst (get s ''SDRNG''))") (auto simp: render_def case_prod_beta)
  from assms sf sd obtain k where k: "pixels_to_omit sf sd = Inr k"
    by (cases "pixels_to_omit sf sd") (auto simp: render_def case_prod_beta)
  from assms sf sd k obtain a where a: "image_array s = Some a"
    by (cases "image_array s") (auto simp: render_def Let_def case_prod_beta)
  from assms sf sd k a obtain b where b: "prepend_columns k (highest_brightness s) a = Inr b"
    by (cases "prepend_columns k (highest_brightness s) a")
       (auto simp: render_def Let_def highest_brightness_def case_prod_beta)
  from prepend_columns_Inr [OF b] obtain dt r c rows where
    k0: "0 \<le> k" "k \<le> npy_intp_max" and a2: "a = Arr2 dt r c rows"
    and bw: "b = widened k (highest_brightness s) a" by blast
  from assms sf sd k a b have "mesh f = b \<and> s' = s\<lparr>image_array := Some b\<rparr>"
    by (auto simp: render_def Let_def highest_brightness_def case_prod_beta
             split: if_splits sum.splits)
  with sf sd k k0 a a2 bw show ?thesis by auto
qed

lemma highest_brightness_update [simp]:
  "highest_brightness (s\<lparr>image_array := a\<rparr>) = highest_brightness s"
  by (simp add: highest_brightness_def)

lemma widened_twice:
  "widened k fill (widened k fill (Arr2 dt r c rows))
     = Arr2 (if dt = Float64 then Float64 else Int64) r (nat k + (nat k + c))
         (map (\<lambda>row. replicate (nat k) fill @ replicate (nat k) fill @ row) rows)"
  by (simp add: widened_def)

section \<open>Examples of the specification\<close>

text \<open>The examples that the specification lists for \<open>auto_type\<close> and for a header line.\<close>

lemma auto_type_examples:
  "auto_type ''123'' = Inr (VInt 123)"
  "auto_type ''12.5'' = Inr (VFloat (Fin (25 / 2)))"
  "auto_type ''true'' = Inr (VBool True)"
  "auto_type ''abc'' = Inr (VStr ''abc'')"
  by code_simp+

lemma process_line_example:
  "process_line [] ''FIFO 512 CCNumber of samples''
     = [(''FIFO'', \<lparr>val = VInt 512, description = ''Number of samples''\<rparr>)]"
  by code_simp

section \<open>A file without the marker\<close>

text \<open>
  Claim C5. When the bytes \<open>EOH\<close> occur nowhere in the file, the constructor stops at the
  header stage: it logs that the marker was not found and logs nothing else, the header
  stays the empty dictionary (no entry of any line is produced), and neither the image
  data nor the sample matrix is ever assigned, so decoding is not reached.
\<close>

theorem missing_EOH_marker:
  assumes "\<not> (\<exists>pre post. content = pre @ ''EOH'' @ post)"
  shows "snd (init (Some content)) = [Critical_no_EOH_marker]
       \<and> header (fst (init (Some content))) = []
       \<and> image_data (fst (init (Some content))) = None
       \<and> image_array (fst (init (Some content))) = None
       \<and> image_size (fst (init (Some content))) = 0"
proof -
  from assms have "py_find content ''EOH'' = - 1"
    by (simp only: py_find_absent not_False_eq_True)
  then have "process_file (Some content) new_polar_image = ((None, None), new_polar_image, [])"
    by (simp add: process_file_def)
  then have "init (Some content) = (new_polar_image, [Critical_no_EOH_marker])"
    by (simp add: init_def truthy_def)
  then show ?thesis by (simp add: new_polar_image_def)
qed

theorem missing_EOH_marker_witness:
  "snd (init (Some ''DABIT 8 CC no marker'')) = [Critical_no_EOH_marker]
   \<and> header (fst (init (Some ''DABIT 8 CC no marker''))) = []
   \<and> image_data (fst (init (Some ''DABIT 8 CC no marker''))) = None
   \<and> image_array (fst (init (Some ''DABIT 8 CC no marker''))) = None
   \<and> image_size (fst (init (Some ''DABIT 8 CC no marker''))) = 0"
proof -
  have "find_sub ''DABIT 8 CC no marker'' ''EOH'' = None" by (simp add: startswith_def)
  then have "\<not> (\<exists>pre post. ''DABIT 8 CC no marker'' = pre @ ''EOH'' @ post)"
    using find_sub_None_iff by blast
  from missing_EOH_marker [OF this] show ?thesis .
qed

section \<open>Decoding 8-bit samples\<close>

text \<open>
  Claim C7. Whenever \<open>get_image_array\<close> creates the matrix of a session whose \<open>DABIT\<close>
  is 8, the matrix has at least one column, column 0 of every ray is 0, and every other
  element is the byte of the image data at its row-major position, unchanged: no mask
  is applied.
\<close>

theorem dabit8_column0:
  assumes dabit: "py_int (fst (get s ''DABIT'')) = Inr 8"
    and ok: "get_image_array s = (a, [Info_created_image_array])"
  shows "\<exists>data r c rows.
           image_data s = Some data \<and> a = Arr2 UInt8 r c rows \<and> 0 < c
         \<and> length rows = r \<and> r * c = length data
         \<and> (\<forall>i<r. length (rows ! i) = c \<and> rows ! i ! 0 = 0
               \<and> (\<forall>j. 0 < j \<and> j < c \<longrightarrow> rows ! i ! j = int (of_char (data ! (i * c + j)))))"
proof -
  from ok have t: "get_image_array_try s = (Inr a, [Info_created_image_array])"
    by (rule get_image_array_created)
  then obtain n where fifo: "py_int (fst (get s ''FIFO'')) = Inr n"
    by (cases "py_int (fst (get s ''FIFO''))") (auto simp: try_FIFO_error)
  note t8 = t [unfolded try_8 [OF fifo dabit]]
  from t8 have n0: "n \<noteq> 0" by (auto split: if_splits)
  from t8 n0 obtain xs where fb: "frombuffer (image_data s) UInt8 = Inr xs"
    by (auto split: sum.splits)
  then obtain data where data: "image_data s = Some data"
    and xs: "xs = map (\<lambda>c. int (of_char c)) data"
    by (auto simp: frombuffer_def uint_of_char split: option.splits)
  from t8 n0 fb obtain reshaped where rs: "reshape UInt8 xs (image_size s div n) n = Inr reshaped"
    by (auto split: sum.splits)
  from t8 n0 fb rs have sc: "set_column0 reshaped = Inr a"
    by (auto split: sum.splits)
  from reshape_Inr [OF rs] obtain r c where
    reshaped: "reshaped = Arr2 UInt8 r c (chunks r c xs)" and rc: "r * c = length xs"
    by blast
  from sc reshaped have c0: "0 < c" and a: "a = Arr2 UInt8 r c (map (\<lambda>row. row[0 := 0]) (chunks r c xs))"
    by (auto simp: set_column0_def split: if_splits)
  let ?rows = "map (\<lambda>row. row[0 := 0]) (chunks r c xs)"
  have rows: "\<forall>i<r. length (?rows ! i) = c \<and> ?rows ! i ! 0 = 0
               \<and> (\<forall>j. 0 < j \<and> j < c \<longrightarrow> ?rows ! i ! j = int (of_char (data ! (i * c + j))))"
  proof (intro allI impI)
    fix i assume i: "i < r"
    have len: "length (chunks r c xs ! i) = c"
      using i rc by (simp add: length_nth_chunks)
    have "\<forall>j. 0 < j \<and> j < c \<longrightarrow> ?rows ! i ! j = int (of_char (data ! (i * c + j)))"
    proof (intro allI impI)
      fix j assume j: "0 < j \<and> j < c"
      from i have "Suc i * c \<le> r * c" by (intro mult_le_mono1) simp
      with j rc have "i * c + j < length xs" by simp
      then have "xs ! (i * c + j) = int (of_char (data ! (i * c + j)))"
        by (simp add: xs)
      with i j rc show "?rows ! i ! j = int (of_char (data ! (i * c + j)))"
        by (simp add: length_chunks nth_nth_chunks)
    qed
    with i len c0 show "length (?rows ! i) = c \<and> ?rows ! i ! 0 = 0
               \<and> (\<forall>j. 0 < j \<and> j < c \<longrightarrow> ?rows ! i ! j = int (of_char (data ! (i * c + j))))"
      by (simp add: length_chunks)
  qed
  from rc xs have "r * c = length data" by simp
  with data a c0 rows show ?thesis by (simp add: length_chunks)
qed

theorem dabit8_column0_witness:
  "py_int (fst (get (fst (init (Some capture8_shifted))) ''DABIT'')) = Inr 8
   \<and> get_image_array (fst (init (Some capture8_shifted)))
       = (Arr2 UInt8 2 2 [[0, 2], [0, 4]], [Info_created_image_array])
   \<and> (\<exists>data r c rows.
           image_data (fst (init (Some capture8_shifted))) = Some data
         \<and> Arr2 UInt8 2 2 [[0, 2], [0, 4]] = Arr2 UInt8 r c rows \<and> 0 < c
         \<and> length rows = r \<and> r * c = length data
         \<and> (\<forall>i<r. length (rows ! i) = c \<and> rows ! i ! 0 = 0
               \<and> (\<forall>j. 0 < j \<and> j < c \<longrightarrow> rows ! i ! j = int (of_char (data ! (i * c + j))))))"
proof -
  have h1: "py_int (fst (get (fst (init (Some capture8_shifted))) ''DABIT'')) = Inr 8"
    by code_simp
  have h2: "get_image_array (fst (init (Some capture8_shifted)))
       = (Arr2 UInt8 2 2 [[0, 2], [0, 4]], [Info_created_image_array])"
    by code_simp
  from dabit8_column0 [OF h1 h2] h1 h2 show ?thesis by blast
qed

section \<open>Decoding 12-bit samples\<close>

text \<open>
  Claim C2 as stated does not hold: it asks for a decode error whenever the size in the
  prefix is not a multiple of \<open>2N\<close>. The size is divided with \<open>//\<close> and never compared
  with the payload, so a capture cut short decodes whenever what is left fills the
  floored number of rays. Here the prefix reads 5, \<open>N\<close> is 2, four bytes follow, and the
  decoder returns one ray.
\<close>

theorem truncated_capture_is_floored:
  "fst (get (fst (init (Some capture12_truncated))) ''DABIT'') = VInt 12
   \<and> fst (get (fst (init (Some capture12_truncated))) ''FIFO'') = VInt 2
   \<and> image_size (fst (init (Some capture12_truncated))) = 5
   \<and> (5 :: int) mod (2 * 2) \<noteq> 0
   \<and> get_image_array (fst (init (Some capture12_truncated)))
       = (Arr2 UInt16 1 2 [[513, 3843]], [Info_created_image_array])
   \<and> image_array (fst (init (Some capture12_truncated))) = Some (Arr2 UInt16 1 2 [[513, 3843]])"
  by code_simp

text \<open>
  Claim C2, as amended. Let the header have \<open>DABIT\<close> 12 and \<open>FIFO = N\<close> with
  \<open>0 < N\<close> and \<open>N\<close> within numpy's index type, and let the image region be a 10-character
  size prefix that reads \<open>imageByteCount\<close> followed by a payload of exactly
  \<open>imageByteCount\<close> bytes. Then decoding ends in the error handler with the empty matrix
  whenever \<open>imageByteCount mod (2N) \<noteq> 0\<close>; otherwise the matrix has exactly
  \<open>imageByteCount / (2N)\<close> rays of \<open>N\<close> samples and every element lies in \<open>[0, 4095]\<close>.
\<close>

theorem dabit12_decode:
  assumes dabit: "fst (get s ''DABIT'') = VInt 12"
    and fifo: "fst (get s ''FIFO'') = VInt N" and N: "0 < N" "N \<le> npy_intp_max"
    and prefix: "length prefix = 10" "int_of_str prefix = Inr imageByteCount"
    and payload: "int (length payload) = imageByteCount"
  shows "image_size (fst (snd (process_image s (prefix @ payload)))) = imageByteCount
       \<and> image_data (fst (snd (process_image s (prefix @ payload)))) = Some payload
       \<and> (imageByteCount mod (2 * N) \<noteq> 0 \<longrightarrow>
            get_image_array (fst (snd (process_image s (prefix @ payload))))
              = (empty_array, [Critical_creating_image_array]))
       \<and> (imageByteCount mod (2 * N) = 0 \<longrightarrow>
            (\<exists>rows. get_image_array (fst (snd (process_image s (prefix @ payload))))
                      = (Arr2 UInt16 (nat (imageByteCount div (2 * N))) (nat N) rows,
                         [Info_created_image_array])
                  \<and> length rows = nat (imageByteCount div (2 * N))
                  \<and> (\<forall>row\<in>set rows. length row = nat N \<and> (\<forall>x\<in>set row. 0 \<le> x \<and> x \<le> 4095))))"
proof -
  let ?s = "fst (snd (process_image s (prefix @ payload)))"
  let ?r = "imageByteCount div (2 * N)"
  from dabit have "fst (get s ''DABIT'') \<noteq> VNone" by simp
  then have "snd (get s ''DABIT'') = []" by (rule get_no_log)
  with dabit prefix have size: "get_image_size s (prefix @ payload) = (imageByteCount, [])"
    by (simp add: get_image_size_eq py_eq_int_def)
  then have isz: "image_size ?s = imageByteCount" by (simp add: process_image_fields)
  from prefix have idata: "image_data ?s = Some payload" by (simp add: process_image_fields)
  from fifo have f: "py_int (fst (get ?s ''FIFO'')) = Inr N" by (simp add: py_int_def)
  from dabit have d: "py_int (fst (get ?s ''DABIT'')) = Inr 12" by (simp add: py_int_def)
  note t = try_12 [OF f d, unfolded isz idata]
  from int_of_str_bound [OF prefix(2)] prefix(1) have "imageByteCount < 10 ^ 10" by simp
  then have big: "imageByteCount \<le> npy_intp_max" by (rule below_intp_max)
  from payload have nonneg: "0 \<le> imageByteCount" by simp
  from N nonneg have r0: "0 \<le> ?r" by (simp add: pos_imp_zdiv_nonneg_iff)
  have "?r \<le> imageByteCount" using N(1) nonneg by (rule div_twice_le)
  with big have rmax: "?r \<le> npy_intp_max" by linarith
  from N have Nz: "N \<noteq> 0" by simp
  show ?thesis
  proof (cases "even (length payload)")
    case False
    then have "frombuffer (Some payload) UInt16 = Inl ValueError" by (simp add: frombuffer_def)
    with t Nz have "get_image_array_try ?s = (Inl ValueError, [])" by simp
    then have "get_image_array ?s = (empty_array, [] @ [Critical_creating_image_array])"
      by (rule get_image_array_error)
    then have fail: "get_image_array ?s = (empty_array, [Critical_creating_image_array])" by simp
    from False payload have "odd imageByteCount" by auto
    with N(1) have "imageByteCount mod (2 * N) \<noteq> 0" by (rule odd_mod_twice)
    with isz idata fail show ?thesis by simp
  next
    case True
    let ?xs = "map uint (le16 payload)"
    from True have fb: "frombuffer (Some payload) UInt16 = Inr ?xs" by (simp add: frombuffer_def)
    from True payload have ev: "even imageByteCount" by auto
    have len: "int (length ?xs) = imageByteCount div 2"
      using payload by (simp add: length_le16 zdiv_int)
    have rs: "reshape UInt16 ?xs ?r N =
           (if ?r * N \<le> npy_intp_max \<and> ?r * N = int (length ?xs)
            then Inr (Arr2 UInt16 (nat ?r) (nat N) (chunks (nat ?r) (nat N) ?xs)) else Inl ValueError)"
      using r0 N rmax by (intro reshape_exact) simp_all
    show ?thesis
    proof (cases "imageByteCount mod (2 * N) = 0")
      case False
      with floor_exact_iff [OF N(1) ev] len have "?r * N \<noteq> int (length ?xs)" by simp
      with rs have "reshape UInt16 ?xs ?r N = Inl ValueError" by simp
      with t Nz fb have "get_image_array_try ?s = (Inl ValueError, [])" by simp
      then have "get_image_array ?s = (empty_array, [] @ [Critical_creating_image_array])"
        by (rule get_image_array_error)
      then have "get_image_array ?s = (empty_array, [Critical_creating_image_array])" by simp
      with isz idata False show ?thesis by simp
    next
      case zero: True
      with floor_exact_iff [OF N(1) ev] len have eq: "?r * N = int (length ?xs)" by simp
      have "imageByteCount div 2 \<le> imageByteCount" using nonneg by simp
      with eq len big have "?r * N \<le> npy_intp_max" by linarith
      with rs eq have rs': "reshape UInt16 ?xs ?r N
          = Inr (Arr2 UInt16 (nat ?r) (nat N) (chunks (nat ?r) (nat N) ?xs))" by simp
      let ?rows = "map (map (\<lambda>x. x AND 4095)) (chunks (nat ?r) (nat N) ?xs)"
      from t Nz fb rs' have "get_image_array_try ?s
          = (Inr (Arr2 UInt16 (nat ?r) (nat N) ?rows), [Info_created_image_array])"
        by (simp add: array_and_rows)
      then have ga: "get_image_array ?s = (Arr2 UInt16 (nat ?r) (nat N) ?rows, [Info_created_image_array])"
        by (rule get_image_array_ok)
      have "int (nat ?r * nat N) = ?r * N" using r0 N by simp
      with eq have nat_eq: "nat ?r * nat N = length ?xs" by linarith
      have rows: "\<forall>row\<in>set ?rows. length row = nat N \<and> (\<forall>x\<in>set row. 0 \<le> x \<and> x \<le> 4095)"
      proof
        fix row assume "row \<in> set ?rows"
        then obtain i where i: "i < nat ?r" and row: "row = map (\<lambda>x. x AND 4095) (chunks (nat ?r) (nat N) ?xs ! i)"
          by (auto simp: in_set_conv_nth length_chunks)
        have l: "length (chunks (nat ?r) (nat N) ?xs ! i) = nat N"
          using i nat_eq by (intro length_nth_chunks) simp_all
        have "set (take (nat N) (drop (i * nat N) ?xs)) \<subseteq> set ?xs"
          by (rule subset_trans [OF set_take_subset set_drop_subset])
        with i have sub: "set (chunks (nat ?r) (nat N) ?xs ! i) \<subseteq> set ?xs"
          by (simp only: nth_chunks)
        have "\<forall>x\<in>set row. 0 \<le> x \<and> x \<le> 4095"
        proof
          fix x assume "x \<in> set row"
          then obtain y where y: "y \<in> set (chunks (nat ?r) (nat N) ?xs ! i)" and x: "x = y AND 4095"
            unfolding row by auto
          from y sub have "y \<in> set ?xs" by blast
          then obtain w :: "16 word" where w: "y = uint w" by auto
          show "0 \<le> x \<and> x \<le> 4095" unfolding x w by (rule and_4095_range)
        qed
        moreover have "length row = nat N" unfolding row by (simp add: l)
        ultimately show "length row = nat N \<and> (\<forall>x\<in>set row. 0 \<le> x \<and> x \<le> 4095)" by blast
      qed
      have "length ?rows = nat ?r" by (simp add: length_chunks)
      with ga rows have "\<exists>rows. get_image_array ?s
                      = (Arr2 UInt16 (nat ?r) (nat N) rows, [Info_created_image_array])
                  \<and> length rows = nat ?r
                  \<and> (\<forall>row\<in>set rows. length row = nat N \<and> (\<forall>x\<in>set row. 0 \<le> x \<and> x \<le> 4095))"
        by blast
      with isz idata zero show ?thesis by simp
    qed
  qed
qed

theorem dabit12_decode_witness:
  "fst (get (fst (init (Some capture12))) ''DABIT'') = VInt 12
   \<and> fst (get (fst (init (Some capture12))) ''FIFO'') = VInt 2
   \<and> (0 :: int) < 2 \<and> 2 \<le> npy_intp_max
   \<and> length ''0000000008'' = 10 \<and> int_of_str ''0000000008'' = Inr 8
   \<and> int (length payload8) = 8
   \<and> length ''0000000006'' = 10 \<and> int_of_str ''0000000006'' = Inr 6
   \<and> int (length payload6) = 6
   \<and> (\<exists>rows. get_image_array (fst (snd (process_image (fst (init (Some capture12)))
                                            (''0000000008'' @ payload8))))
                = (Arr2 UInt16 2 2 rows, [Info_created_image_array])
            \<and> length rows = 2
            \<and> (\<forall>row\<in>set rows. length row = 2 \<and> (\<forall>x\<in>set row. 0 \<le> x \<and> x \<le> 4095)))
   \<and> get_image_array (fst (snd (process_image (fst (init (Some capture12)))
                                    (''0000000006'' @ payload6))))
        = (empty_array, [Critical_creating_image_array])"
proof -
  let ?s = "fst (init (Some capture12))"
  have d: "fst (get ?s ''DABIT'') = VInt 12" by code_simp
  have f: "fst (get ?s ''FIFO'') = VInt 2" by code_simp
  have n: "(0 :: int) < 2" "2 \<le> npy_intp_max" by (simp_all add: npy_intp_max_def)
  have p8: "length ''0000000008'' = 10" "int_of_str ''0000000008'' = Inr 8" by code_simp+
  have l8: "int (length payload8) = 8" by (simp add: payload8_def)
  have p6: "length ''0000000006'' = 10" "int_of_str ''0000000006'' = Inr 6" by code_simp+
  have l6: "int (length payload6) = 6" by (simp add: payload6_def)
  from dabit12_decode [OF d f n p8 l8]
  have r8: "\<exists>rows. get_image_array (fst (snd (process_image ?s (''0000000008'' @ payload8))))
                = (Arr2 UInt16 2 2 rows, [Info_created_image_array])
            \<and> length rows = 2
            \<and> (\<forall>row\<in>set rows. length row = 2 \<and> (\<forall>x\<in>set row. 0 \<le> x \<and> x \<le> 4095))"
    by simp
  from dabit12_decode [OF d f n p6 l6]
  have r6: "get_image_array (fst (snd (process_image ?s (''0000000006'' @ payload6))))
        = (empty_array, [Critical_creating_image_array])"
    by simp
  from d f n p8 l8 p6 l6 r8 r6 show ?thesis by blast
qed

section \<open>A size prefix that is not a number\<close>

text \<open>
  Claim C3 as stated does not hold: a size prefix that is not a number does not stop the
  decoding. Here the prefix is \<open>abcdefghij\<close>; the size becomes 0, the image data is
  stored, \<open>get_image_array\<close> runs (and fails on the shape), and the constructor ends
  with its success message. The same happens in a file that has no \<open>DABIT\<close> line, where
  in addition each reading of \<open>DABIT\<close> logs that the attribute is missing.
\<close>

theorem bad_size_prefix_proceeds:
  "int_of_str (take 10 ''abcdefghij'') = Inl ValueError
   \<and> image_size (fst (init (Some capture12_bad_prefix))) = 0
   \<and> image_data (fst (init (Some capture12_bad_prefix)))
        = Some [CHR 0x01, CHR 0x02, CHR 0x03, CHR 0xFF]
   \<and> image_array (fst (init (Some capture12_bad_prefix))) = Some empty_array
   \<and> snd (init (Some capture12_bad_prefix))
        = [Critical_decoding_image_size, Critical_creating_image_array, Info_processed]
   \<and> image_size (fst (init (Some capture_no_dabit))) = 0
   \<and> image_array (fst (init (Some capture_no_dabit))) = Some empty_array
   \<and> snd (init (Some capture_no_dabit))
        = [Error_attribute_not_found ''DABIT'', Critical_decoding_image_size,
           Error_attribute_not_found ''DABIT'', Critical_creating_image_array, Info_processed]"
  by code_simp

text \<open>
  Claim C3, as amended. When \<open>int\<close> rejects the first \<open>sizeDigits\<close> characters of the
  image region (10 when \<open>DABIT\<close> is 12, otherwise 6), \<open>get_image_size\<close> returns 0 and
  decoding goes on with that size. What it has logged is what \<open>get\<close> logged on reading
  \<open>DABIT\<close> (nothing when the header has the key, the missing attribute when a header
  lacks it, the warning when there is no header), and then the failure to decode the
  size. \<open>_process_image\<close> logs the same, stores the size 0 and stores the region from
  offset 10 on as the image data. The matrix decoded from a non-empty image data of
  size 0 is the empty matrix.
\<close>

theorem bad_size_prefix:
  assumes "int_of_str (take (if py_eq_int (fst (get s ''DABIT'')) 12 then 10 else 6) region) = Inl e"
  shows "get_image_size s region
           = (0, (if header s = [] then [Warning_header_not_initialized]
                  else if map_of (header s) ''DABIT'' = None
                       then [Error_attribute_not_found ''DABIT'']
                       else [])
                 @ [Critical_decoding_image_size])
       \<and> process_image s region
           = (drop 10 region, s\<lparr>image_size := 0, image_data := Some (drop 10 region)\<rparr>,
              snd (get_image_size s region))
       \<and> (drop 10 region \<noteq> [] \<longrightarrow>
            fst (get_image_array (s\<lparr>image_size := 0, image_data := Some (drop 10 region)\<rparr>))
              = empty_array)"
proof -
  from assms have g: "get_image_size s region
           = (0, (if header s = [] then [Warning_header_not_initialized]
                  else if map_of (header s) ''DABIT'' = None
                       then [Error_attribute_not_found ''DABIT'']
                       else [])
                 @ [Critical_decoding_image_size])"
    by (simp only: get_image_size_eq get_logs sum.case)
  then have "fst (get_image_size s region) = 0" by simp
  then have p: "process_image s region
           = (drop 10 region, s\<lparr>image_size := 0, image_data := Some (drop 10 region)\<rparr>,
              snd (get_image_size s region))"
    by (cases "get_image_size s region") (simp add: process_image_def Let_def)
  have "drop 10 region \<noteq> [] \<longrightarrow>
            fst (get_image_array (s\<lparr>image_size := 0, image_data := Some (drop 10 region)\<rparr>))
              = empty_array"
    by (auto intro: zero_size_decodes_empty)
  with g p show ?thesis by blast
qed

theorem bad_size_prefix_witness:
  "int_of_str (take (if py_eq_int (fst (get (fst (init (Some capture12))) ''DABIT'')) 12
                     then 10 else 6)
                 (''abcdefghij'' @ payload8)) = Inl ValueError
   \<and> get_image_size (fst (init (Some capture12))) (''abcdefghij'' @ payload8)
        = (0, [Critical_decoding_image_size])
   \<and> process_image (fst (init (Some capture12))) (''abcdefghij'' @ payload8)
        = (payload8,
           (fst (init (Some capture12)))\<lparr>image_size := 0, image_data := Some payload8\<rparr>,
           [Critical_decoding_image_size])
   \<and> fst (get_image_array ((fst (init (Some capture12)))
             \<lparr>image_size := 0, image_data := Some payload8\<rparr>))
        = empty_array
   \<and> int_of_str (take (if py_eq_int (fst (get (fst (init (Some capture_no_dabit))) ''DABIT'')) 12
                       then 10 else 6)
                   (''abcdefghij'' @ payload8)) = Inl ValueError
   \<and> get_image_size (fst (init (Some capture_no_dabit))) (''abcdefghij'' @ payload8)
        = (0, [Error_attribute_not_found ''DABIT'', Critical_decoding_image_size])"
proof -
  let ?s = "fst (init (Some capture12))"
  let ?t = "fst (init (Some capture_no_dabit))"
  have h: "int_of_str (take (if py_eq_int (fst (get ?s ''DABIT'')) 12 then 10 else 6)
                 (''abcdefghij'' @ payload8)) = Inl ValueError"
    by code_simp
  have hs: "header ?s \<noteq> [] \<and> map_of (header ?s) ''DABIT'' \<noteq> None" by code_simp
  have k: "int_of_str (take (if py_eq_int (fst (get ?t ''DABIT'')) 12 then 10 else 6)
                 (''abcdefghij'' @ payload8)) = Inl ValueError"
    by code_simp
  have ht: "header ?t \<noteq> [] \<and> map_of (header ?t) ''DABIT'' = None" by code_simp
  have d: "drop 10 (''abcdefghij'' @ payload8) = payload8" by simp
  have ne: "payload8 \<noteq> []" by (simp add: payload8_def)
  note a = bad_size_prefix [OF h, unfolded d]
  from a hs have a1: "get_image_size ?s (''abcdefghij'' @ payload8)
        = (0, [Critical_decoding_image_size])" by simp
  from a a1 have a2: "process_image ?s (''abcdefghij'' @ payload8)
        = (payload8, ?s\<lparr>image_size := 0, image_data := Some payload8\<rparr>,
           [Critical_decoding_image_size])" by simp
  from a ne have a3: "fst (get_image_array (?s\<lparr>image_size := 0, image_data := Some payload8\<rparr>))
        = empty_array" by blast
  from bad_size_prefix [OF k] ht have b1: "get_image_size ?t (''abcdefghij'' @ payload8)
        = (0, [Error_attribute_not_found ''DABIT'', Critical_decoding_image_size])" by simp
  from h a1 a2 a3 k b1 show ?thesis by blast
qed

section \<open>A sample width that is not supported\<close>

text \<open>
  Claim C6 as stated does not hold for every header. With \<open>DABIT\<close> 4 and no \<open>FIFO\<close>
  the matrix is empty, but the reports are the missing attribute \<open>FIFO\<close> and then that
  of the exception handler, not the unsupported value. With a \<open>DABIT\<close> line that reads
  12.5, a value that is neither 8 nor 12, \<open>int(...)\<close> makes it 12 and the samples are
  decoded as 12-bit.
\<close>

theorem unsupported_dabit_counterexample:
  "fst (get (fst (init (Some capture4_no_fifo))) ''DABIT'') = VInt 4
   \<and> get_image_array (fst (init (Some capture4_no_fifo)))
        = (empty_array, [Error_attribute_not_found ''FIFO'', Critical_creating_image_array])
   \<and> fst (get (fst (init (Some capture_dabit_12_5))) ''DABIT'') = VFloat (Fin (25 / 2))
   \<and> get_image_array (fst (init (Some capture_dabit_12_5)))
        = (Arr2 UInt16 2 2 [[513, 3843], [1541, 2055]], [Info_created_image_array])"
  by code_simp

text \<open>
  Claim C6, as amended. When the \<open>DABIT\<close> value converts (as \<open>int(...)\<close> does, dropping
  a fraction) to an integer other than 8 and 12, \<open>get_image_array\<close> returns the empty
  matrix and decodes nothing. When \<open>FIFO\<close> converts to an integer, the one record
  logged is the unsupported value. When \<open>FIFO\<close> does not, its conversion raises first:
  the records are the missing attribute if the header has no \<open>FIFO\<close>, and then the
  report of the exception handler.
\<close>

theorem unsupported_dabit:
  assumes "py_int (fst (get s ''DABIT'')) = Inr d" "d \<noteq> 8" "d \<noteq> 12"
  shows "fst (get_image_array s) = empty_array
       \<and> snd (get_image_array s)
           = (case py_int (fst (get s ''FIFO'')) of
                Inr n \<Rightarrow> [Error_unsupported_DABIT d]
              | Inl e \<Rightarrow> (if map_of (header s) ''FIFO'' = None
                          then [Error_attribute_not_found ''FIFO''] else [])
                         @ [Critical_creating_image_array])"
proof (cases "py_int (fst (get s ''FIFO''))")
  case (Inl e)
  from assms(1) have "fst (get s ''DABIT'') \<noteq> VNone" by (auto simp: py_int_def)
  then have "header s \<noteq> []" by (rule get_value_header)
  then have l: "snd (get s ''FIFO'')
       = (if map_of (header s) ''FIFO'' = None then [Error_attribute_not_found ''FIFO''] else [])"
    by (simp only: get_logs if_False)
  from Inl have "get_image_array_try s = (Inl e, snd (get s ''FIFO''))" by (rule try_FIFO_error)
  then have "get_image_array s
       = (empty_array, snd (get s ''FIFO'') @ [Critical_creating_image_array])"
    by (rule get_image_array_error)
  with Inl l show ?thesis by simp
next
  case (Inr n)
  from try_unsupported [OF Inr assms(1) assms(3) assms(2)]
  have "get_image_array s = (empty_array, [Error_unsupported_DABIT d])"
    by (rule get_image_array_ok)
  with Inr show ?thesis by simp
qed

theorem unsupported_dabit_witness:
  "py_int (fst (get (fst (init (Some capture4))) ''DABIT'')) = Inr 4
   \<and> (4 :: int) \<noteq> 8 \<and> (4 :: int) \<noteq> 12
   \<and> py_int (fst (get (fst (init (Some capture4))) ''FIFO'')) = Inr 2
   \<and> get_image_array (fst (init (Some capture4))) = (empty_array, [Error_unsupported_DABIT 4])
   \<and> py_int (fst (get (fst (init (Some capture4_no_fifo))) ''DABIT'')) = Inr 4
   \<and> py_int (fst (get (fst (init (Some capture4_no_fifo))) ''FIFO'')) = Inl TypeError
   \<and> map_of (header (fst (init (Some capture4_no_fifo)))) ''FIFO'' = None
   \<and> get_image_array (fst (init (Some capture4_no_fifo)))
        = (empty_array, [Error_attribute_not_found ''FIFO'', Critical_creating_image_array])"
proof -
  let ?s = "fst (init (Some capture4))"
  let ?t = "fst (init (Some capture4_no_fifo))"
  have d: "py_int (fst (get ?s ''DABIT'')) = Inr 4" by code_simp
  have f: "py_int (fst (get ?s ''FIFO'')) = Inr 2" by code_simp
  have d': "py_int (fst (get ?t ''DABIT'')) = Inr 4" by code_simp
  have f': "py_int (fst (get ?t ''FIFO'')) = Inl TypeError" by code_simp
  have m: "map_of (header ?t) ''FIFO'' = None" by code_simp
  from unsupported_dabit [OF d] f
  have "fst (get_image_array ?s) = empty_array \<and> snd (get_image_array ?s) = [Error_unsupported_DABIT 4]"
    by simp
  then have a: "get_image_array ?s = (empty_array, [Error_unsupported_DABIT 4])"
    by (simp add: prod_eq_iff)
  from unsupported_dabit [OF d'] f' m
  have "fst (get_image_array ?t) = empty_array
      \<and> snd (get_image_array ?t) = [Error_attribute_not_found ''FIFO'', Critical_creating_image_array]"
    by simp
  then have b: "get_image_array ?t
      = (empty_array, [Error_attribute_not_found ''FIFO'', Critical_creating_image_array])"
    by (simp add: prod_eq_iff)
  from d f a d' f' m b show ?thesis by simp
qed

section \<open>The size prefix and the payload offset\<close>

text \<open>
  Claim C1 says that the payload starts where the size prefix ends, at offset 6 when
  \<open>DABIT\<close> is 8. The program reads the size from 6 characters but always drops 10. On
  the 8-bit capture \<open>capture8\<close> (size \<open>000008\<close>, then the bytes 1 to 8) the size is read
  as 8, the image data is the last four bytes only, and the matrix cannot be formed.
\<close>

theorem size_prefix_6_payload_offset_10:
  "image_size (fst (init (Some capture8))) = 8
   \<and> image_data (fst (init (Some capture8))) = Some [CHR 0x05, CHR 0x06, CHR 0x07, CHR 0x08]
   \<and> image_array (fst (init (Some capture8))) = Some empty_array
   \<and> snd (init (Some capture8)) = [Critical_creating_image_array, Info_processed]"
  by code_simp

section \<open>The near-range blanking width\<close>

text \<open>
  Claim C8 as stated does not hold for every render call. The program evaluates the
  formula in binary64 floats, and on the header values as \<open>int(...)\<close> has truncated
  them. With \<open>SFREQ\<close> 7 and \<open>SDRNG\<close> 150 the formula gives
  \<open>ceil(150 / (3e8 / 14e6)) * 2 = ceil(7) * 2 = 14\<close>; the quotient that the program
  computes is a float above 7, and it prepends 16 columns. With \<open>SFREQ\<close> 40 and an
  \<open>SDRNG\<close> line that reads 3.9 (the header value is the float nearest to it) the formula
  gives \<open>ceil(3.9 / 3.75) * 2 = 4\<close>; the program divides \<open>int(3.9) = 3\<close> and prepends 2
  columns.
\<close>

theorem blanking_width_rounded_and_truncated:
  "fst (get (fst (init (Some capture_sfreq_7))) ''SFREQ'') = VInt 7
   \<and> fst (get (fst (init (Some capture_sfreq_7))) ''SDRNG'') = VInt 150
   \<and> pixelsToOmit_spec 7 150 = 14
   \<and> pixels_to_omit 7 150 = Inr 16
   \<and> image_array (fst (init (Some capture_sfreq_7)))
        = Some (Arr2 UInt16 2 2 [[513, 3843], [1541, 2055]])
   \<and> image_array (fst (snd (render True False (fst (init (Some capture_sfreq_7))))))
        = Some (Arr2 Int64 2 18
                  (map (\<lambda>row. replicate 16 4095 @ row) [[513, 3843], [1541, 2055]]))
   \<and> fst (get (fst (init (Some capture_sdrng_3_9))) ''SFREQ'') = VInt 40
   \<and> fst (get (fst (init (Some capture_sdrng_3_9))) ''SDRNG'')
        = VFloat (Fin (8782019273372467 / 2251799813685248))
   \<and> pixelsToOmit_spec 40 (8782019273372467 / 2251799813685248) = 4
   \<and> pixelsToOmit_spec 40 (39 / 10) = 4
   \<and> image_array (fst (snd (render True False (fst (init (Some capture_sdrng_3_9))))))
        = Some (Arr2 Int64 2 4 [[4095, 4095, 513, 3843], [4095, 4095, 1541, 2055]])"
  by code_simp

text \<open>
  Claim C8, as amended. Let \<open>SFREQ\<close> and \<open>SDRNG\<close> be the integers that \<open>int(...)\<close> makes
  of the two header values (a fraction is dropped), with \<open>0 < SFREQ < 2 ^ 20\<close> and
  \<open>0 \<le> SDRNG < 2 ^ 20\<close>, and let the stored matrix have two dimensions. Then \<open>render\<close>
  puts \<open>k\<close> columns of the highest brightness in front of the stored matrix, where \<open>k\<close>
  is the \<open>pixelsToOmit\<close> of the specification computed on these integers without
  rounding, or that number plus 2. It is that number whenever \<open>SFREQ\<close> is 40, and
  whenever 150 does not divide \<open>SDRNG * SFREQ\<close>; the larger number can occur only when
  the exact quotient \<open>SDRNG / metersPerPixel\<close> is an integer, which the rounding of the
  two float divisions may exceed. \<open>SFREQ = 40\<close> and \<open>SDRNG = 15\<close> give 8.
\<close>

theorem near_range_blanking_width:
  assumes "py_int (fst (get s ''SFREQ'')) = Inr SFREQ" "py_int (fst (get s ''SDRNG'')) = Inr SDRNG"
    and "0 < SFREQ" "SFREQ < 2 ^ 20" "0 \<le> SDRNG" "SDRNG < 2 ^ 20"
    and "image_array s = Some (Arr2 dt r c rows)"
  shows "\<exists>k. image_array (fst (snd (render orient toggle_direction s)))
               = Some (Arr2 (if dt = Float64 then Float64 else Int64) r (nat k + c)
                         (map (\<lambda>row. replicate (nat k) (highest_brightness s) @ row) rows))
           \<and> 0 \<le> k
           \<and> (SFREQ = 40 \<or> \<not> 150 dvd SDRNG * SFREQ
                \<longrightarrow> k = pixelsToOmit_spec (of_int SFREQ) (of_int SDRNG))
           \<and> (k = pixelsToOmit_spec (of_int SFREQ) (of_int SDRNG)
                \<or> k = pixelsToOmit_spec (of_int SFREQ) (of_int SDRNG) + 2)
           \<and> (SFREQ = 40 \<and> SDRNG = 15 \<longrightarrow> k = 8)"
proof -
  from pixels_to_omit_width [OF assms(3-6)] obtain k where
    k: "pixels_to_omit SFREQ SDRNG = Inr k" and k0: "0 \<le> k" and ku: "k \<le> 2 ^ 41"
    and ex: "SFREQ = 40 \<or> \<not> 150 dvd SDRNG * SFREQ
               \<longrightarrow> k = pixelsToOmit_spec (of_int SFREQ) (of_int SDRNG)"
    and alt: "k = pixelsToOmit_spec (of_int SFREQ) (of_int SDRNG)
               \<or> k = pixelsToOmit_spec (of_int SFREQ) (of_int SDRNG) + 2"
    by blast
  from ku have "k \<le> npy_intp_max" by (simp add: npy_intp_max_def)
  from render_stores [OF assms(1) assms(2) k k0 this assms(7), of orient toggle_direction]
  have st: "image_array (fst (snd (render orient toggle_direction s)))
               = Some (Arr2 (if dt = Float64 then Float64 else Int64) r (nat k + c)
                         (map (\<lambda>row. replicate (nat k) (highest_brightness s) @ row) rows))"
    by (simp add: widened_def)
  have "pixelsToOmit_spec 40 15 = 8" by (simp add: pixelsToOmit_spec_def)
  with ex have "SFREQ = 40 \<and> SDRNG = 15 \<longrightarrow> k = 8" by auto
  with st k0 ex alt show ?thesis by blast
qed

theorem near_range_blanking_width_witness:
  "py_int (fst (get (fst (init (Some capture_sdrng_15))) ''SFREQ'')) = Inr 40
   \<and> py_int (fst (get (fst (init (Some capture_sdrng_15))) ''SDRNG'')) = Inr 15
   \<and> image_array (fst (init (Some capture_sdrng_15)))
        = Some (Arr2 UInt16 2 2 [[513, 3843], [1541, 2055]])
   \<and> image_array (fst (snd (render True False (fst (init (Some capture_sdrng_15))))))
        = Some (Arr2 Int64 2 10
                  [[4095, 4095, 4095, 4095, 4095, 4095, 4095, 4095, 513, 3843],
                   [4095, 4095, 4095, 4095, 4095, 4095, 4095, 4095, 1541, 2055]])
   \<and> py_int (fst (get (fst (init (Some capture_sfreq_20))) ''SFREQ'')) = Inr 20
   \<and> py_int (fst (get (fst (init (Some capture_sfreq_20))) ''SDRNG'')) = Inr 20
   \<and> \<not> (150 :: int) dvd 20 * 20 \<and> pixelsToOmit_spec 20 20 = 6
   \<and> image_array (fst (snd (render True False (fst (init (Some capture_sfreq_20))))))
        = Some (Arr2 Int64 2 8
                  [[4095, 4095, 4095, 4095, 4095, 4095, 513, 3843],
                   [4095, 4095, 4095, 4095, 4095, 4095, 1541, 2055]])"
proof -
  let ?s = "fst (init (Some capture_sdrng_15))"
  let ?t = "fst (init (Some capture_sfreq_20))"
  have sf: "py_int (fst (get ?s ''SFREQ'')) = Inr 40" by code_simp
  have sd: "py_int (fst (get ?s ''SDRNG'')) = Inr 15" by code_simp
  have a: "image_array ?s = Some (Arr2 UInt16 2 2 [[513, 3843], [1541, 2055]])" by code_simp
  have hb: "highest_brightness ?s = 4095" by code_simp
  have sf': "py_int (fst (get ?t ''SFREQ'')) = Inr 20" by code_simp
  have sd': "py_int (fst (get ?t ''SDRNG'')) = Inr 20" by code_simp
  have a': "image_array ?t = Some (Arr2 UInt16 2 2 [[513, 3843], [1541, 2055]])" by code_simp
  have hb': "highest_brightness ?t = 4095" by code_simp
  have nd: "\<not> (150 :: int) dvd 20 * 20" by simp
  have e: "pixelsToOmit_spec 20 20 = 6" by code_simp
  have r1: "(0 :: int) < 40" "(40 :: int) < 2 ^ 20" "(0 :: int) \<le> 15" "(15 :: int) < 2 ^ 20"
    by simp_all
  have r2: "(0 :: int) < 20" "(20 :: int) < 2 ^ 20" "(0 :: int) \<le> 20" by simp_all
  from near_range_blanking_width [OF sf sd r1 a, of True False] obtain k where
    "image_array (fst (snd (render True False ?s)))
       = Some (Arr2 (if UInt16 = Float64 then Float64 else Int64) 2 (nat k + 2)
                 (map (\<lambda>row. replicate (nat k) (highest_brightness ?s) @ row)
                    [[513, 3843], [1541, 2055]]))"
    and "k = 8" by blast
  then have w1: "image_array (fst (snd (render True False ?s)))
        = Some (Arr2 Int64 2 10
                  [[4095, 4095, 4095, 4095, 4095, 4095, 4095, 4095, 513, 3843],
                   [4095, 4095, 4095, 4095, 4095, 4095, 4095, 4095, 1541, 2055]])"
    by (simp add: hb numeral_eq_Suc)
  from near_range_blanking_width [OF sf' sd' r2 r2(2) a', of True False] nd obtain k' where
    "image_array (fst (snd (render True False ?t)))
       = Some (Arr2 (if UInt16 = Float64 then Float64 else Int64) 2 (nat k' + 2)
                 (map (\<lambda>row. replicate (nat k') (highest_brightness ?t) @ row)
                    [[513, 3843], [1541, 2055]]))"
    and "k' = pixelsToOmit_spec (of_int 20) (of_int 20)" by blast
  then have w2: "image_array (fst (snd (render True False ?t)))
        = Some (Arr2 Int64 2 8
                  [[4095, 4095, 4095, 4095, 4095, 4095, 513, 3843],
                   [4095, 4095, 4095, 4095, 4095, 4095, 1541, 2055]])"
    by (simp add: e hb' numeral_eq_Suc)
  from sf sd a w1 sf' sd' nd e w2 show ?thesis by blast
qed

section \<open>Rendering changes the session\<close>

text \<open>
  Claim C10 as stated does not hold for every session: with \<open>SDRNG\<close> 0 the blanking
  width is 0, and \<open>saveto\<close> followed by \<open>save_with_metadata\<close> draws the same matrix
  twice, of the width it had before.
\<close>

theorem two_renders_same_width:
  "py_int (fst (get (fst (init (Some capture_sdrng_0))) ''SDRNG'')) = Inr 0
   \<and> image_array (fst (init (Some capture_sdrng_0)))
        = Some (Arr2 UInt16 2 2 [[513, 3843], [1541, 2055]])
   \<and> map_sum id mesh (fst (saveto (fst (init (Some capture_sdrng_0)))))
        = Inr (Arr2 Int64 2 2 [[513, 3843], [1541, 2055]])
   \<and> image_array (fst (snd (saveto (fst (init (Some capture_sdrng_0))))))
        = Some (Arr2 Int64 2 2 [[513, 3843], [1541, 2055]])
   \<and> map_sum id fst (fst (save_with_metadata (fst (snd (saveto (fst (init (Some capture_sdrng_0))))))))
        = fst (saveto (fst (init (Some capture_sdrng_0))))
   \<and> image_array (fst (snd (save_with_metadata (fst (snd (saveto (fst (init (Some capture_sdrng_0)))))))))
        = Some (Arr2 Int64 2 2 [[513, 3843], [1541, 2055]])"
  by code_simp

text \<open>
  Claim C10, as amended. A \<open>render\<close> call that returns a figure has replaced the stored
  matrix by the one it drew, which has \<open>pixelsToOmit\<close> more columns of the highest
  brightness in front of every ray; nothing restores it. A second call on the session
  draws and stores a matrix with \<open>pixelsToOmit\<close> columns more again. The two calls work
  on matrices of different widths exactly when \<open>pixelsToOmit\<close> is not 0.
\<close>

theorem render_keeps_widened_matrix:
  assumes "render orient1 toggle1 s = (Inr fig1, s1, log1)"
    and "render orient2 toggle2 s1 = (Inr fig2, s2, log2)"
  shows "\<exists>SFREQ SDRNG k dt r c rows.
           py_int (fst (get s ''SFREQ'')) = Inr SFREQ \<and> py_int (fst (get s ''SDRNG'')) = Inr SDRNG
         \<and> pixels_to_omit SFREQ SDRNG = Inr k \<and> 0 \<le> k
         \<and> image_array s = Some (Arr2 dt r c rows)
         \<and> mesh fig1 = Arr2 (if dt = Float64 then Float64 else Int64) r (nat k + c)
                          (map (\<lambda>row. replicate (nat k) (highest_brightness s) @ row) rows)
         \<and> image_array s1 = Some (mesh fig1)
         \<and> mesh fig2 = Arr2 (if dt = Float64 then Float64 else Int64) r (nat k + (nat k + c))
                          (map (\<lambda>row. replicate (nat k) (highest_brightness s)
                                       @ replicate (nat k) (highest_brightness s) @ row) rows)
         \<and> image_array s2 = Some (mesh fig2)
         \<and> (nat k + (nat k + c) = nat k + c \<longleftrightarrow> k = 0)"
proof -
  from render_Inr [OF assms(1)] obtain sf sd k dt r c rows where
    sf: "py_int (fst (get s ''SFREQ'')) = Inr sf" and sd: "py_int (fst (get s ''SDRNG'')) = Inr sd"
    and k: "pixels_to_omit sf sd = Inr k" "0 \<le> k"
    and a: "image_array s = Some (Arr2 dt r c rows)"
    and m1: "mesh fig1 = widened k (highest_brightness s) (Arr2 dt r c rows)"
    and s1: "s1 = s\<lparr>image_array := Some (mesh fig1)\<rparr>" by blast
  from render_Inr [OF assms(2)] obtain sf' sd' k' dt' r' c' rows' where
    sf': "py_int (fst (get s1 ''SFREQ'')) = Inr sf'" and sd': "py_int (fst (get s1 ''SDRNG'')) = Inr sd'"
    and k': "pixels_to_omit sf' sd' = Inr k'"
    and a': "image_array s1 = Some (Arr2 dt' r' c' rows')"
    and m2: "mesh fig2 = widened k' (highest_brightness s1) (Arr2 dt' r' c' rows')"
    and s2: "s2 = s1\<lparr>image_array := Some (mesh fig2)\<rparr>" by blast
  from sf sf' s1 have "sf' = sf" by simp
  moreover from sd sd' s1 have "sd' = sd" by simp
  ultimately have kk: "k' = k" using k k' by simp
  from a' s1 have "Arr2 dt' r' c' rows' = mesh fig1" by simp
  with m2 kk s1 have "mesh fig2 = widened k (highest_brightness s) (mesh fig1)" by simp
  with m1 have m2': "mesh fig2 = Arr2 (if dt = Float64 then Float64 else Int64) r (nat k + (nat k + c))
                          (map (\<lambda>row. replicate (nat k) (highest_brightness s)
                                       @ replicate (nat k) (highest_brightness s) @ row) rows)"
    by (simp only: widened_twice)
  from m1 have m1': "mesh fig1 = Arr2 (if dt = Float64 then Float64 else Int64) r (nat k + c)
                          (map (\<lambda>row. replicate (nat k) (highest_brightness s) @ row) rows)"
    by (simp add: widened_def)
  from k(2) have "nat k + (nat k + c) = nat k + c \<longleftrightarrow> k = 0" by auto
  with sf sd k a m1' m2' s1 s2 show ?thesis by auto
qed

theorem render_keeps_widened_matrix_witness:
  "render True False (fst (init (Some capture_sdrng_3)))
     = (Inr \<lparr>mesh = Arr2 Int64 2 4 [[4095, 4095, 513, 3843], [4095, 4095, 1541, 2055]],
             theta_direction = 1, theta_offset_degrees = Some (- 20)\<rparr>,
        (fst (init (Some capture_sdrng_3)))
          \<lparr>image_array := Some (Arr2 Int64 2 4 [[4095, 4095, 513, 3843], [4095, 4095, 1541, 2055]])\<rparr>,
        [])
   \<and> render True False ((fst (init (Some capture_sdrng_3)))
          \<lparr>image_array := Some (Arr2 Int64 2 4 [[4095, 4095, 513, 3843], [4095, 4095, 1541, 2055]])\<rparr>)
     = (Inr \<lparr>mesh = Arr2 Int64 2 6 [[4095, 4095, 4095, 4095, 513, 3843],
                                     [4095, 4095, 4095, 4095, 1541, 2055]],
             theta_direction = 1, theta_offset_degrees = Some (- 20)\<rparr>,
        (fst (init (Some capture_sdrng_3)))
          \<lparr>image_array := Some (Arr2 Int64 2 6 [[4095, 4095, 4095, 4095, 513, 3843],
                                                 [4095, 4095, 4095, 4095, 1541, 2055]])\<rparr>,
        [])
   \<and> (\<exists>k c. 0 \<le> k \<and> pixels_to_omit 40 3 = Inr k
          \<and> (\<exists>dt r rows. image_array (fst (init (Some capture_sdrng_3))) = Some (Arr2 dt r c rows))
          \<and> (nat k + (nat k + c) = nat k + c \<longleftrightarrow> k = 0))"
proof -
  let ?s = "fst (init (Some capture_sdrng_3))"
  let ?m1 = "Arr2 Int64 2 4 [[4095, 4095, 513, 3843], [4095, 4095, 1541, 2055]]"
  let ?m2 = "Arr2 Int64 2 6 [[4095, 4095, 4095, 4095, 513, 3843],
                              [4095, 4095, 4095, 4095, 1541, 2055]]"
  have h1: "render True False ?s
     = (Inr \<lparr>mesh = ?m1, theta_direction = 1, theta_offset_degrees = Some (- 20)\<rparr>,
        ?s\<lparr>image_array := Some ?m1\<rparr>, [])"
    by code_simp
  have h2: "render True False (?s\<lparr>image_array := Some ?m1\<rparr>)
     = (Inr \<lparr>mesh = ?m2, theta_direction = 1, theta_offset_degrees = Some (- 20)\<rparr>,
        ?s\<lparr>image_array := Some ?m2\<rparr>, [])"
    by code_simp
  have sf: "py_int (fst (get ?s ''SFREQ'')) = Inr 40" by code_simp
  have sd: "py_int (fst (get ?s ''SDRNG'')) = Inr 3" by code_simp
  from render_keeps_widened_matrix [OF h1 h2] obtain SFREQ SDRNG k dt r c rows where
    f: "py_int (fst (get ?s ''SFREQ'')) = Inr SFREQ" "py_int (fst (get ?s ''SDRNG'')) = Inr SDRNG"
    and k: "pixels_to_omit SFREQ SDRNG = Inr k" "0 \<le> k"
    and a: "image_array ?s = Some (Arr2 dt r c rows)"
    and w: "nat k + (nat k + c) = nat k + c \<longleftrightarrow> k = 0" by blast
  from f sf sd have "SFREQ = 40" "SDRNG = 3" by simp_all
  with k a w have "\<exists>k c. 0 \<le> k \<and> pixels_to_omit 40 3 = Inr k
          \<and> (\<exists>dt r rows. image_array ?s = Some (Arr2 dt r c rows))
          \<and> (nat k + (nat k + c) = nat k + c \<longleftrightarrow> k = 0)" by blast
  with h1 h2 show ?thesis by blast
qed

section \<open>A digit that is not decimal\<close>

text \<open>
  Claim C4 gives the order integer, float, boolean, string, the integer for strings of
  decimal digits only. The program tests \<open>string.isdigit()\<close>, which also holds of the
  superscript digits, and then calls \<open>int(string)\<close> outside any handler. For the
  one-character string superscript two (\<open>0xB2\<close>) \<open>isdigit\<close> holds, the string is not made
  of decimal digits, is no float and no boolean, and \<open>auto_type\<close> raises \<open>ValueError\<close>
  instead of returning the string; the header line that carries it is dropped.
\<close>

theorem auto_type_superscript_two:
  "isdigit [CHR 0xB2] \<and> auto_type [CHR 0xB2] = Inl ValueError
   \<and> \<not> list_all is_ascii_digit [CHR 0xB2]
   \<and> float_of_str [CHR 0xB2] = Inl ValueError
   \<and> lower [CHR 0xB2] \<noteq> ''true'' \<and> lower [CHR 0xB2] \<noteq> ''false''
   \<and> process_line [] (''KEY '' @ [CHR 0xB2]) = []"
  by code_simp

end
